theory Spec2Isabelle
  imports Main "HOL-Library.Sublist"
begin

section \<open>Python values\<close>

text \<open>
  The script \<^verbatim>\<open>parse_commit.py\<close> works on Python \<^verbatim>\<open>str\<close> values and on the
  dynamically typed value that \<^verbatim>\<open>yaml.safe_load\<close> returns. A \<^verbatim>\<open>str\<close> is a sequence
  of Unicode code points, so it is modelled as a list of code points (natural numbers);
  \<open>u\<close> turns an ASCII literal into such a list.
\<close>

type_synonym pystr = "nat list"

definition u :: "string \<Rightarrow> pystr" where
  "u s = map of_char s"

text \<open>
  The decoded document: \<^verbatim>\<open>None\<close>, booleans, integers, strings, lists, and dicts
  with string keys. (The decoder can also produce floats, timestamps, binary data and
  sets; they are left out.) A dict is the list of its items in insertion order; the
  keys of a Python dict are distinct.
\<close>

datatype pyval =
    PNone
  | PBool bool
  | PInt int
  | PStr pystr
  | PList "pyval list"
  | PDict "(pystr \<times> pyval) list"

text \<open>The exceptions the script can raise, and results: \<open>Inl\<close> is a raised exception.\<close>

datatype exn =
    KeyError | TypeError | AttributeError | ValueError | UnicodeEncodeError | YAMLError

type_synonym 'a res = "exn + 'a"

definition bind :: "'a res \<Rightarrow> ('a \<Rightarrow> 'b res) \<Rightarrow> 'b res" where
  "bind m f = (case m of Inl e \<Rightarrow> Inl e | Inr x \<Rightarrow> f x)"

text \<open>
  What the script calls and does not define is a parameter of the model:
  \<^item> \<^verbatim>\<open>yaml.safe_load\<close>, which returns the decoded value or raises;
  \<^item> \<^verbatim>\<open>str.upper\<close>, the Unicode case mapping;
  \<^item> \<^verbatim>\<open>str()\<close> of a value that is not a string, as an f-string applies it: it can
    raise (from Python 3.11 on, \<^verbatim>\<open>ValueError\<close> for an integer of more than 4300 digits);
  \<^item> writing one text to standard output, as \<^verbatim>\<open>print\<close> does: \<open>None\<close> when the stream
    takes it, else the exception (\<^verbatim>\<open>UnicodeEncodeError\<close> when the encoding of the stream
    has no bytes for a character, a lone surrogate or, off UTF-8, the signs the script
    prints itself).
\<close>

record runtime =
  yaml_safe_load :: "pystr \<Rightarrow> pyval res"
  str_upper :: "pystr \<Rightarrow> pystr"
  builtin_str :: "pyval \<Rightarrow> pystr res"
  stdout_write :: "pystr \<Rightarrow> exn option"

text \<open>Truth value testing (\<^verbatim>\<open>if x\<close>, \<^verbatim>\<open>not x\<close>).\<close>

fun truthy :: "pyval \<Rightarrow> bool" where
  "truthy PNone = False"
| "truthy (PBool b) = b"
| "truthy (PInt n) = (n \<noteq> 0)"
| "truthy (PStr s) = (s \<noteq> [])"
| "truthy (PList xs) = (xs \<noteq> [])"
| "truthy (PDict kvs) = (kvs \<noteq> [])"

text \<open>\<^verbatim>\<open>x[key]\<close> with a string key: only a dict can be subscripted by a string.\<close>

fun getitem :: "pyval \<Rightarrow> pystr \<Rightarrow> pyval res" where
  "getitem (PDict kvs) k = (case map_of kvs k of None \<Rightarrow> Inl KeyError | Some v \<Rightarrow> Inr v)"
| "getitem _ k = Inl TypeError"

text \<open>\<^verbatim>\<open>x.get(key)\<close>: a method of dicts only; a missing key gives \<^verbatim>\<open>None\<close>.\<close>

fun py_get :: "pyval \<Rightarrow> pystr \<Rightarrow> pyval res" where
  "py_get (PDict kvs) k = (case map_of kvs k of None \<Rightarrow> Inr PNone | Some v \<Rightarrow> Inr v)"
| "py_get _ k = Inl AttributeError"

text \<open>Iteration (\<^verbatim>\<open>for x in v\<close>): a list yields its elements, a dict its keys, a string
  its characters; nothing else is iterable.\<close>

fun py_iter :: "pyval \<Rightarrow> pyval list res" where
  "py_iter (PList xs) = Inr xs"
| "py_iter (PDict kvs) = Inr (map (\<lambda>kv. PStr (fst kv)) kvs)"
| "py_iter (PStr s) = Inr (map (\<lambda>c. PStr [c]) s)"
| "py_iter _ = Inl TypeError"

fun py_len :: "pyval \<Rightarrow> int res" where
  "py_len (PList xs) = Inr (int (length xs))"
| "py_len (PDict kvs) = Inr (int (length kvs))"
| "py_len (PStr s) = Inr (int (length s))"
| "py_len _ = Inl TypeError"

text \<open>A value inside an f-string: a string is itself, anything else goes through
  \<^verbatim>\<open>str()\<close>, which can raise.\<close>

fun fmt :: "runtime \<Rightarrow> pyval \<Rightarrow> pystr res" where
  "fmt rt (PStr s) = Inr s"
| "fmt rt v = builtin_str rt v"

text \<open>\<^verbatim>\<open>v.upper()\<close> and \<^verbatim>\<open>v.strip()\<close>: methods of strings only.\<close>

fun py_upper :: "runtime \<Rightarrow> pyval \<Rightarrow> pystr res" where
  "py_upper rt (PStr s) = Inr (str_upper rt s)"
| "py_upper rt _ = Inl AttributeError"

text \<open>The characters \<^verbatim>\<open>str.strip()\<close> removes: those for which \<^verbatim>\<open>str.isspace\<close> holds.\<close>

definition is_space :: "nat \<Rightarrow> bool" where
  "is_space c = ((9 \<le> c \<and> c \<le> 13) \<or> (28 \<le> c \<and> c \<le> 32) \<or> c = 133 \<or> c = 160
     \<or> c = 5760 \<or> (8192 \<le> c \<and> c \<le> 8202) \<or> c = 8232 \<or> c = 8233 \<or> c = 8239
     \<or> c = 8287 \<or> c = 12288)"

definition strip :: "pystr \<Rightarrow> pystr" where
  "strip s = rev (dropWhile is_space (rev (dropWhile is_space s)))"

fun py_strip :: "pyval \<Rightarrow> pystr res" where
  "py_strip (PStr s) = Inr (strip s)"
| "py_strip _ = Inl AttributeError"

text \<open>\<^verbatim>\<open>sep.join(parts)\<close>: every part must be a string.\<close>

fun join :: "pystr \<Rightarrow> pystr list \<Rightarrow> pystr" where
  "join sep [] = []"
| "join sep [x] = x"
| "join sep (x # y # ys) = x @ sep @ join sep (y # ys)"

fun the_strs :: "pyval list \<Rightarrow> pystr list res" where
  "the_strs [] = Inr []"
| "the_strs (PStr s # vs) = bind (the_strs vs) (\<lambda>ss. Inr (s # ss))"
| "the_strs (_ # vs) = Inl TypeError"

definition py_join :: "pystr \<Rightarrow> pyval list \<Rightarrow> pystr res" where
  "py_join sep parts = bind (the_strs parts) (\<lambda>ss. Inr (join sep ss))"

section \<open>parse_commit_recommendation\<close>

definition open_marker :: pystr where
  "open_marker = u ''<COMMIT_RECOMMENDATION>''"

definition close_marker :: pystr where
  "close_marker = u ''</COMMIT_RECOMMENDATION>''"

text \<open>
  \<^verbatim>\<open>re.search(r'<COMMIT_RECOMMENDATION>(.*?)</COMMIT_RECOMMENDATION>', text, re.DOTALL)\<close>.
  The engine tries the start positions from left to right. At a start position it
  matches the opening marker literally, then the lazy group: it tries the closing
  marker after no character, after one character, and so on (with \<^verbatim>\<open>DOTALL\<close> the dot
  matches every character), and gives up at the end of the text. \<open>lazy_until\<close> is the
  lazy group followed by a literal; \<open>re_search\<close> returns group 1 of the match.
\<close>

fun lazy_until :: "pystr \<Rightarrow> pystr \<Rightarrow> pystr option" where
  "lazy_until stop [] = (if stop = [] then Some [] else None)"
| "lazy_until stop (c # cs) =
     (if prefix stop (c # cs) then Some []
      else map_option ((#) c) (lazy_until stop cs))"

definition match_here :: "pystr \<Rightarrow> pystr option" where
  "match_here s =
     (if prefix open_marker s then lazy_until close_marker (drop (length open_marker) s)
      else None)"

fun re_search :: "pystr \<Rightarrow> pystr option" where
  "re_search [] = match_here []"
| "re_search (c # cs) =
     (case match_here (c # cs) of Some g \<Rightarrow> Some g | None \<Rightarrow> re_search cs)"

text \<open>Lines 34 to 42: the search and \<^verbatim>\<open>match.group(1).strip()\<close>.\<close>

definition extract_block :: "pystr \<Rightarrow> pystr option" where
  "extract_block text = map_option strip (re_search text)"

text \<open>The function returns \<^verbatim>\<open>None\<close> when nothing matches, else what the decoder returns
  (or raises) on the stripped text.\<close>

definition parse_commit_recommendation :: "runtime \<Rightarrow> pystr \<Rightarrow> pyval res" where
  "parse_commit_recommendation rt text =
     (case extract_block text of
        None \<Rightarrow> Inr PNone
      | Some yaml_content \<Rightarrow> yaml_safe_load rt yaml_content)"

section \<open>format_commit_message\<close>

definition newline :: pystr where
  "newline = [10]"

text \<open>An f-string evaluates and formats its fields from left to right: in line 58 the
  type is looked up and formatted before the subject is looked up.\<close>

definition format_commit_message :: "runtime \<Rightarrow> pyval \<Rightarrow> pystr res" where
  "format_commit_message rt commit =
     bind (py_get commit (u ''scope'')) (\<lambda>sc.
     bind (if truthy sc
           then bind (getitem commit (u ''scope'')) (\<lambda>v.
                bind (fmt rt v) (\<lambda>s. Inr (u ''('' @ s @ u '')'')))
           else Inr []) (\<lambda>scope.
     bind (getitem commit (u ''type'')) (\<lambda>ty.
     bind (fmt rt ty) (\<lambda>t.
     bind (getitem commit (u ''subject'')) (\<lambda>sj.
     bind (fmt rt sj) (\<lambda>s.
     let subject = t @ scope @ u '': '' @ s;
         parts = [PStr subject]
     in
     bind (py_get commit (u ''body'')) (\<lambda>b.
     bind (if truthy b
           then bind (getitem commit (u ''body'')) (\<lambda>bv.
                bind (py_strip bv) (\<lambda>stripped.
                Inr (parts @ [PStr []] @ [PStr stripped])))
           else Inr parts) (\<lambda>parts.
     bind (py_get commit (u ''closes'')) (\<lambda>cl.
     bind (if truthy cl
           then bind (py_get commit (u ''body'')) (\<lambda>b'.
                let parts = (if \<not> truthy b' then parts @ [PStr []] else parts);
                    parts = parts @ [PStr []]
                in bind (getitem commit (u ''closes'')) (\<lambda>cv. Inr (parts @ [cv])))
           else Inr parts) (\<lambda>parts.
     py_join newline parts))))))))))"

section \<open>print_summary\<close>

text \<open>
  What a piece of code wrote to standard output, one entry for each call of
  \<^verbatim>\<open>print\<close>, and the exception that stopped it, if one did. A call of \<^verbatim>\<open>print\<close>
  first evaluates its argument, which can raise, then writes, which can raise too;
  a text the stream refuses is not written.
\<close>

type_synonym printed = "pystr list \<times> exn option"

definition print_line :: "runtime \<Rightarrow> pystr res \<Rightarrow> printed" where
  "print_line rt e =
     (case e of
        Inl x \<Rightarrow> ([], Some x)
      | Inr s \<Rightarrow> (case stdout_write rt s of Some x \<Rightarrow> ([], Some x) | None \<Rightarrow> ([s], None)))"

definition on :: "'a res \<Rightarrow> ('a \<Rightarrow> printed) \<Rightarrow> printed" where
  "on e f = (case e of Inl x \<Rightarrow> ([], Some x) | Inr v \<Rightarrow> f v)"

definition andthen :: "printed \<Rightarrow> printed \<Rightarrow> printed" where
  "andthen p q =
     (case snd p of
        Some x \<Rightarrow> p
      | None \<Rightarrow> (fst p @ fst q, snd q))"

definition block :: "printed list \<Rightarrow> printed" where
  "block ps = foldr andthen ps ([], None)"

definition banner :: pystr where
  "banner = replicate 60 61"

definition warning_sign :: pystr where
  "warning_sign = [9888, 65039]"

definition blocked_notice :: pystr where
  "blocked_notice = [9940] @ u '' BLOCKED - Cannot proceed with commit''"

text \<open>The body of the loop over the commits, lines 97 to 109.\<close>

definition print_commit :: "runtime \<Rightarrow> pyval \<Rightarrow> printed" where
  "print_commit rt commit = block
     [ print_line rt (bind (getitem commit (u ''id'')) (\<lambda>v.
         bind (fmt rt v) (\<lambda>s. Inr (u ''--- Commit '' @ s @ u '' ---'')))),
       print_line rt (bind (getitem commit (u ''type'')) (\<lambda>v.
         bind (fmt rt v) (\<lambda>s. Inr (u ''Type: '' @ s)))),
       on (py_get commit (u ''scope'')) (\<lambda>sc.
         if truthy sc
         then print_line rt (bind (getitem commit (u ''scope'')) (\<lambda>v.
                bind (fmt rt v) (\<lambda>s. Inr (u ''Scope: '' @ s))))
         else ([], None)),
       print_line rt (bind (getitem commit (u ''subject'')) (\<lambda>v.
         bind (fmt rt v) (\<lambda>s. Inr (u ''Subject: '' @ s)))),
       print_line rt (bind (getitem commit (u ''files'')) (\<lambda>fs.
         bind (py_len fs) (\<lambda>n.
         bind (fmt rt (PInt n)) (\<lambda>s. Inr (u ''Files ('' @ s @ u ''):''))))),
       on (bind (getitem commit (u ''files'')) py_iter) (\<lambda>fs.
         block (map (\<lambda>file_path.
           print_line rt (bind (fmt rt file_path) (\<lambda>s. Inr (u ''  - '' @ s)))) fs)),
       on (py_get commit (u ''breaking'')) (\<lambda>br.
         if truthy br then print_line rt (Inr (warning_sign @ u ''  BREAKING CHANGE''))
         else ([], None)),
       on (py_get commit (u ''closes'')) (\<lambda>cl.
         if truthy cl
         then print_line rt (bind (getitem commit (u ''closes'')) (\<lambda>v.
                bind (fmt rt v) (\<lambda>s. Inr (u ''Closes: '' @ s))))
         else ([], None)),
       print_line rt (Inr []) ]"

definition print_summary :: "runtime \<Rightarrow> pyval \<Rightarrow> printed" where
  "print_summary rt recommendation = block
     [ print_line rt (Inr banner),
       print_line rt (Inr (u ''COMMIT RECOMMENDATION SUMMARY'')),
       print_line rt (Inr banner),
       print_line rt (bind (getitem recommendation (u ''status'')) (\<lambda>v.
         bind (py_upper rt v) (\<lambda>s. Inr (u ''Status: '' @ s)))),
       print_line rt (bind (getitem recommendation (u ''security_scan'')) (\<lambda>v.
         bind (py_upper rt v) (\<lambda>s. Inr (u ''Security Scan: '' @ s)))),
       print_line rt (bind (getitem recommendation (u ''issues_found'')) (\<lambda>v.
         bind (fmt rt v) (\<lambda>s. Inr (u ''Issues Found: '' @ s)))),
       print_line rt (bind (getitem recommendation (u ''commits_proposed'')) (\<lambda>v.
         bind (fmt rt v) (\<lambda>s. Inr (u ''Commits Proposed: '' @ s)))),
       print_line rt (Inr []),
       on (getitem recommendation (u ''status'')) (\<lambda>st.
         if st = PStr (u ''blocked'')
         then block
           [ print_line rt (Inr blocked_notice),
             print_line rt
               (Inr (u ''Review the security issues in the agent output above.'')) ]
         else on (getitem recommendation (u ''commits'')) (\<lambda>cs.
           if \<not> truthy cs then print_line rt (Inr (u ''No commits proposed.''))
           else on (bind (getitem recommendation (u ''commits'')) py_iter) (\<lambda>commits.
             block (map (print_commit rt) commits)))) ]"

section \<open>generate_git_commands\<close>

text \<open>\<^verbatim>\<open>message.replace('"', '\\"')\<close>: a backslash before every double quote.\<close>

definition escape_quotes :: "pystr \<Rightarrow> pystr" where
  "escape_quotes s = concat (map (\<lambda>c. if c = 34 then [92, 34] else [c]) s)"

definition quoted :: "pystr \<Rightarrow> pystr" where
  "quoted s = [34] @ s @ [34]"

text \<open>The generator of line 129: each path is formatted and put between double quotes,
  one after the other.\<close>

fun quote_all :: "runtime \<Rightarrow> pyval list \<Rightarrow> pystr list res" where
  "quote_all rt [] = Inr []"
| "quote_all rt (f # fs) =
     bind (fmt rt f) (\<lambda>s. bind (quote_all rt fs) (\<lambda>ss. Inr (quoted s # ss)))"

text \<open>The loop over the commits, lines 127 to 137, with the list built so far.\<close>

fun commands_loop :: "runtime \<Rightarrow> pyval list \<Rightarrow> pystr list \<Rightarrow> pystr list res" where
  "commands_loop rt [] commands = Inr commands"
| "commands_loop rt (commit # rest) commands =
     bind (bind (getitem commit (u ''files'')) py_iter) (\<lambda>fs.
     bind (quote_all rt fs) (\<lambda>qs.
     let files = join (u '' '') qs;
         commands = commands @ [u ''git add '' @ files]
     in
     bind (format_commit_message rt commit) (\<lambda>message.
     let message_escaped = escape_quotes message;
         commands = commands @ [u ''git commit -m '' @ quoted message_escaped];
         commands = commands @ [[]]
     in commands_loop rt rest commands)))"

definition generate_git_commands :: "runtime \<Rightarrow> pyval \<Rightarrow> pystr list res" where
  "generate_git_commands rt recommendation =
     bind (getitem recommendation (u ''status'')) (\<lambda>st.
     if st \<noteq> PStr (u ''safe'') then Inr []
     else bind (bind (getitem recommendation (u ''commits'')) py_iter) (\<lambda>commits.
          commands_loop rt commits []))"

section \<open>main\<close>

text \<open>
  How a run ends: it falls off the end of \<^verbatim>\<open>main\<close>, it calls \<^verbatim>\<open>sys.exit\<close>, or an
  exception nobody catches ends it (the interpreter then prints a traceback and the
  exit status is 1).
\<close>

datatype ending = Finished | SysExit nat | Uncaught exn

fun exit_status :: "ending \<Rightarrow> nat" where
  "exit_status Finished = 0"
| "exit_status (SysExit n) = n"
| "exit_status (Uncaught e) = 1"

record run =
  stdout :: "pystr list"
  stderr :: "pystr list"
  ending :: ending

text \<open>
  \<open>text\<close> is what lines 145 to 149 read, from the file named on the command line or
  from standard input. \<open>stderr\<close> holds what the script itself writes there: the one
  error line, which is ASCII, on a stream that escapes what it cannot encode.
\<close>

definition main :: "runtime \<Rightarrow> pystr \<Rightarrow> run" where
  "main rt text =
     (case parse_commit_recommendation rt text of
        Inl e \<Rightarrow> \<lparr>stdout = [], stderr = [], ending = Uncaught e\<rparr>
      | Inr recommendation \<Rightarrow>
          if \<not> truthy recommendation
          then \<lparr>stdout = [],
                stderr = [u ''ERROR: No COMMIT_RECOMMENDATION block found in input''],
                ending = SysExit 1\<rparr>
          else
            let p = block
              [ print_summary rt recommendation,
                on (getitem recommendation (u ''status'')) (\<lambda>st.
                  if st = PStr (u ''safe'')
                  then block
                    [ print_line rt (Inr banner),
                      print_line rt (Inr (u ''GIT COMMANDS TO EXECUTE'')),
                      print_line rt (Inr banner),
                      on (generate_git_commands rt recommendation) (\<lambda>commands.
                        block (map (\<lambda>cmd. if cmd \<noteq> [] then print_line rt (Inr cmd)
                                           else ([], None)) commands)),
                      print_line rt (Inr []),
                      print_line rt (Inr (warning_sign @ u ''  Review these commands before executing!'')),
                      print_line rt (Inr (warning_sign @ u ''  Ensure you have user approval before running.'')) ]
                  else ([], None)) ]
            in \<lparr>stdout = fst p, stderr = [],
                ending = (case snd p of None \<Rightarrow> Finished | Some e \<Rightarrow> Uncaught e)\<rparr>)"

section \<open>Well-formed recommendations\<close>

text \<open>
  The records of the data model, as conditions on the decoded value, on what a run
  reads. Every run reads \<^verbatim>\<open>status\<close> and \<^verbatim>\<open>security_scan\<close>, which are string labels,
  and formats the two counts. A run whose status is not \<^verbatim>\<open>blocked\<close> reads
  \<^verbatim>\<open>commits\<close>, a list, and shows each commit: a dict whose \<^verbatim>\<open>id\<close>, \<^verbatim>\<open>type\<close>,
  \<^verbatim>\<open>subject\<close>, and \<^verbatim>\<open>scope\<close> and \<^verbatim>\<open>closes\<close> when not empty, can be formatted, with a
  list of \<^verbatim>\<open>files\<close> that can be formatted. A run whose status is \<^verbatim>\<open>safe\<close> builds
  the messages too, so there \<^verbatim>\<open>body\<close> and \<^verbatim>\<open>closes\<close> are free text, or nothing.
\<close>

definition formats :: "runtime \<Rightarrow> pyval \<Rightarrow> bool" where
  "formats rt v = (case fmt rt v of Inr s \<Rightarrow> True | Inl e \<Rightarrow> False)"

definition text_or_nothing :: "pyval \<Rightarrow> bool" where
  "text_or_nothing v = (case v of PStr s \<Rightarrow> True | _ \<Rightarrow> \<not> truthy v)"

definition shown_commit :: "runtime \<Rightarrow> pyval \<Rightarrow> bool" where
  "shown_commit rt c =
     ((case getitem c (u ''id'') of Inr v \<Rightarrow> formats rt v | Inl e \<Rightarrow> False) \<and>
      (case getitem c (u ''type'') of Inr v \<Rightarrow> formats rt v | Inl e \<Rightarrow> False) \<and>
      (case getitem c (u ''subject'') of Inr v \<Rightarrow> formats rt v | Inl e \<Rightarrow> False) \<and>
      (case py_get c (u ''scope'') of
         Inr sc \<Rightarrow> (if truthy sc then formats rt sc else True) | Inl e \<Rightarrow> False) \<and>
      (case getitem c (u ''files'') of
         Inr (PList fs) \<Rightarrow> formats rt (PInt (int (length fs))) \<and> list_all (formats rt) fs
       | _ \<Rightarrow> False) \<and>
      (case py_get c (u ''closes'') of
         Inr cl \<Rightarrow> (if truthy cl then formats rt cl else True) | Inl e \<Rightarrow> False))"

definition message_commit :: "pyval \<Rightarrow> bool" where
  "message_commit c =
     ((case py_get c (u ''body'') of Inr b \<Rightarrow> text_or_nothing b | Inl e \<Rightarrow> False) \<and>
      (case py_get c (u ''closes'') of Inr cl \<Rightarrow> text_or_nothing cl | Inl e \<Rightarrow> False))"

definition wf_commit :: "runtime \<Rightarrow> bool \<Rightarrow> pyval \<Rightarrow> bool" where
  "wf_commit rt safe c = (shown_commit rt c \<and> (if safe then message_commit c else True))"

definition wf_recommendation :: "runtime \<Rightarrow> pyval \<Rightarrow> bool" where
  "wf_recommendation rt r =
     (case getitem r (u ''status'') of
        Inr (PStr s) \<Rightarrow>
          (case getitem r (u ''security_scan'') of Inr (PStr scan) \<Rightarrow> True | _ \<Rightarrow> False) \<and>
          (case getitem r (u ''issues_found'') of Inr n \<Rightarrow> formats rt n | Inl e \<Rightarrow> False) \<and>
          (case getitem r (u ''commits_proposed'') of
             Inr m \<Rightarrow> formats rt m | Inl e \<Rightarrow> False) \<and>
          (if s = u ''blocked'' then True
           else (case getitem r (u ''commits'') of
                   Inr (PList cs) \<Rightarrow> list_all (wf_commit rt (s = u ''safe'')) cs
                 | _ \<Rightarrow> False))
      | _ \<Rightarrow> False)"

text \<open>
  The same runtime with an output stream that takes every text. The lines a run
  writes there are the lines it tries to write; \<open>agree\<close> says of two outputs that the
  second is the first as soon as the stream of \<open>rt\<close> takes every line of the first.
\<close>

definition lenient :: "runtime \<Rightarrow> runtime" where
  "lenient rt = rt\<lparr>stdout_write := (\<lambda>s. None)\<rparr>"

definition takes :: "runtime \<Rightarrow> pystr list \<Rightarrow> bool" where
  "takes rt ls = list_all (\<lambda>s. stdout_write rt s = None) ls"

definition agree :: "runtime \<Rightarrow> printed \<Rightarrow> printed \<Rightarrow> bool" where
  "agree rt p0 p = (if takes rt (fst p0) then p = p0 else True)"

section \<open>A runtime for the examples\<close>

text \<open>
  The examples below run the model on concrete texts, so they need the library
  functions on those texts: upper-casing of ASCII letters; \<^verbatim>\<open>str()\<close> of \<^verbatim>\<open>None\<close>,
  booleans and integers, with the limit of 4300 digits (the examples format nothing
  else); a UTF-8 output stream, which refuses a text with a surrogate in it; and the
  decoder as the table of what \<^verbatim>\<open>yaml.safe_load\<close> returns on the documents the
  examples use (this table refuses every other text). The theorems hold for every
  runtime.
\<close>

definition ascii_upper :: "pystr \<Rightarrow> pystr" where
  "ascii_upper s = map (\<lambda>c. if 97 \<le> c \<and> c \<le> 122 then c - 32 else c) s"

fun decimal :: "nat \<Rightarrow> pystr" where
  "decimal n = (if n < 10 then [48 + n] else decimal (n div 10) @ [48 + n mod 10])"

declare decimal.simps [simp del]

fun scalar_str :: "pyval \<Rightarrow> pystr res" where
  "scalar_str PNone = Inr (u ''None'')"
| "scalar_str (PBool b) = Inr (if b then u ''True'' else u ''False'')"
| "scalar_str (PInt n) =
     (if length (decimal (nat \<bar>n\<bar>)) > 4300 then Inl ValueError
      else Inr (if n < 0 then u ''-'' @ decimal (nat (- n)) else decimal (nat n)))"
| "scalar_str (PStr s) = Inr s"
| "scalar_str (PList xs) = Inr []"
| "scalar_str (PDict kvs) = Inr []"

definition utf8_write :: "pystr \<Rightarrow> exn option" where
  "utf8_write s =
     (if list_ex (\<lambda>c. 55296 \<le> c \<and> c \<le> 57343) s then Some UnicodeEncodeError else None)"

definition blocked_doc :: pystr where
  "blocked_doc = u ''status: blocked'' @ [10] @ u ''security_scan: failed'' @ [10] @
     u ''issues_found: 2'' @ [10] @ u ''commits_proposed: 0'' @ [10] @ u ''commits: []''"

definition blocked_value :: pyval where
  "blocked_value = PDict
     [(u ''status'', PStr (u ''blocked'')), (u ''security_scan'', PStr (u ''failed'')),
      (u ''issues_found'', PInt 2), (u ''commits_proposed'', PInt 0),
      (u ''commits'', PList [])]"

definition safe_doc :: pystr where
  "safe_doc = u ''status: safe'' @ [10] @ u ''security_scan: passed'' @ [10] @
     u ''issues_found: 0'' @ [10] @ u ''commits_proposed: 1'' @ [10] @
     u ''commits:'' @ [10] @ u ''- id: 1'' @ [10] @ u ''  type: fix'' @ [10] @
     u ''  subject: null check'' @ [10] @ u ''  files: [a.py, b.py]''"

definition safe_value :: pyval where
  "safe_value = PDict
     [(u ''status'', PStr (u ''safe'')), (u ''security_scan'', PStr (u ''passed'')),
      (u ''issues_found'', PInt 0), (u ''commits_proposed'', PInt 1),
      (u ''commits'', PList
        [PDict [(u ''id'', PInt 1), (u ''type'', PStr (u ''fix'')),
                (u ''subject'', PStr (u ''null check'')),
                (u ''files'', PList [PStr (u ''a.py''), PStr (u ''b.py'')])]])]"

definition sample_load :: "pystr \<Rightarrow> pyval res" where
  "sample_load s =
     (if s = [] then Inr PNone
      else if s = u ''status: safe'' then Inr (PDict [(u ''status'', PStr (u ''safe''))])
      else if s = blocked_doc then Inr blocked_value
      else if s = safe_doc then Inr safe_value
      else Inl YAMLError)"

definition sample_runtime :: runtime where
  "sample_runtime =
     \<lparr>yaml_safe_load = sample_load, str_upper = ascii_upper, builtin_str = scalar_str,
      stdout_write = utf8_write\<rparr>"

text \<open>Records for the examples: commits with every field, with an empty body, with
  a quoted word in the subject and with a double quote in a path; and a blocked
  recommendation that still lists a commit.\<close>

definition full_commit :: pyval where
  "full_commit = PDict
     [(u ''type'', PStr (u ''fix'')), (u ''scope'', PStr (u ''api'')),
      (u ''subject'', PStr (u ''null check'')),
      (u ''body'', PStr (u ''  Fixes crash.'' @ [10])),
      (u ''closes'', PStr (u ''Closes #42''))]"

definition empty_body_commit :: pyval where
  "empty_body_commit = PDict
     [(u ''type'', PStr (u ''fix'')), (u ''subject'', PStr (u ''x'')), (u ''body'', PStr [])]"

definition blocked_with_commits :: pyval where
  "blocked_with_commits = PDict
     [(u ''status'', PStr (u ''blocked'')), (u ''security_scan'', PStr (u ''failed'')),
      (u ''issues_found'', PInt 2), (u ''commits_proposed'', PInt 0),
      (u ''commits'', PList
        [PDict [(u ''id'', PInt 1), (u ''type'', PStr (u ''fix'')),
                (u ''subject'', PStr (u ''null check'')),
                (u ''files'', PList [PStr (u ''secret.txt'')])]])]"

definition quoting_commit :: pyval where
  "quoting_commit = PDict
     [(u ''type'', PStr (u ''fix'')),
      (u ''subject'', PStr (u ''say '' @ [34] @ u ''hi'' @ [34])),
      (u ''files'', PList [PStr (u ''a.py''), PStr (u ''b.py'')])]"

definition quoting_recommendation :: pyval where
  "quoting_recommendation = PDict
     [(u ''status'', PStr (u ''safe'')), (u ''commits'', PList [quoting_commit])]"

definition odd_path_commit :: pyval where
  "odd_path_commit = PDict
     [(u ''type'', PStr (u ''chore'')), (u ''subject'', PStr (u ''tidy'')),
      (u ''files'', PList [PStr (u ''a'' @ [34] @ u ''b.py''), PStr (u ''my file.py'')])]"

definition odd_path_recommendation :: pyval where
  "odd_path_recommendation = PDict
     [(u ''status'', PStr (u ''safe'')),
      (u ''commits'', PList [odd_path_commit, quoting_commit])]"

section \<open>The search finds the first region\<close>

lemma open_marker_not_Nil: "open_marker \<noteq> []"
  by (simp add: open_marker_def u_def)

lemma close_marker_not_Nil: "close_marker \<noteq> []"
  by (simp add: close_marker_def u_def)

lemma prefix_within:
  assumes "prefix p (g @ r)" "length p \<le> length g"
  shows "prefix p g"
  using assms by (metis prefix_length_prefix prefix_def append_assoc le_refl prefixI prefix_order.dual_order.refl)

lemma not_prefix_first:
  assumes "\<not> sublist stop ((c # g) @ butlast stop)" "stop \<noteq> []"
  shows "\<not> prefix stop ((c # g) @ stop @ post)"
proof
  assume p: "prefix stop ((c # g) @ stop @ post)"
  have eq: "(c # g) @ stop @ post = ((c # g) @ butlast stop) @ (last stop # post)"
    using assms(2) by simp
  from p have "prefix stop (((c # g) @ butlast stop) @ (last stop # post))"
    by (simp only: eq)
  moreover have "length stop \<le> length ((c # g) @ butlast stop)" by simp
  ultimately have "prefix stop ((c # g) @ butlast stop)" by (rule prefix_within)
  then have "sublist stop ((c # g) @ butlast stop)" by (rule prefix_imp_sublist)
  with assms(1) show False by contradiction
qed

lemma lazy_until_found:
  "stop \<noteq> [] \<Longrightarrow> \<not> sublist stop (g @ butlast stop) \<Longrightarrow> lazy_until stop (g @ stop @ post) = Some g"
proof (induction g)
  case Nil
  then obtain x xs where "stop = x # xs" by (cases stop) auto
  then show ?case by simp
next
  case (Cons c g)
  have np: "\<not> prefix stop ((c # g) @ stop @ post)"
    using Cons.prems by (intro not_prefix_first) auto
  have "\<not> sublist stop (g @ butlast stop)"
    using Cons.prems(2) by (simp add: sublist_Cons_right)
  with Cons.IH Cons.prems(1) have "lazy_until stop (g @ stop @ post) = Some g" by simp
  with np show ?case by simp
qed

lemma lazy_until_None_iff: "lazy_until stop s = None \<longleftrightarrow> \<not> sublist stop s"
proof (induction s)
  case Nil
  show ?case by simp
next
  case (Cons c cs)
  show ?case using Cons.IH by (auto simp: sublist_Cons_right)
qed

lemma lazy_until_Some:
  "stop \<noteq> [] \<Longrightarrow> lazy_until stop s = Some g \<Longrightarrow>
     (\<exists>post. s = g @ stop @ post) \<and> \<not> sublist stop (g @ butlast stop)"
proof (induction s arbitrary: g)
  case Nil
  then show ?case by simp
next
  case (Cons c cs)
  show ?case
  proof (cases "prefix stop (c # cs)")
    case True
    with Cons.prems have g: "g = []" by simp
    from True obtain post where "c # cs = stop @ post" by (auto simp: prefix_def)
    moreover have "\<not> sublist stop (butlast stop)"
    proof
      assume "sublist stop (butlast stop)"
      then have "length stop \<le> length (butlast stop)" by (rule sublist_length_le)
      moreover have "length (butlast stop) < length stop"
        using Cons.prems(1) by (cases stop rule: rev_cases) auto
      ultimately show False by linarith
    qed
    ultimately show ?thesis using g by auto
  next
    case False
    with Cons.prems obtain g' where g': "g = c # g'" "lazy_until stop cs = Some g'"
      by auto
    from Cons.IH[OF Cons.prems(1) g'(2)] obtain post where
      cs: "cs = g' @ stop @ post" and ns: "\<not> sublist stop (g' @ butlast stop)" by auto
    have "\<not> prefix stop ((c # g') @ butlast stop)"
    proof
      assume "prefix stop ((c # g') @ butlast stop)"
      then have "prefix stop (((c # g') @ butlast stop) @ (last stop # post))"
        by (rule prefix_prefix)
      moreover have "((c # g') @ butlast stop) @ (last stop # post) = c # cs"
        using cs Cons.prems(1) by simp
      ultimately show False using False by simp
    qed
    with ns have "\<not> sublist stop ((c # g') @ butlast stop)"
      by (simp add: sublist_Cons_right)
    with cs g' show ?thesis by auto
  qed
qed

lemma match_here_Nil: "match_here [] = None"
  using open_marker_not_Nil by (simp add: match_here_def)

lemma re_search_unfold:
  "re_search s = (case match_here s of Some g \<Rightarrow> Some g
                  | None \<Rightarrow> (case s of [] \<Rightarrow> None | c # cs \<Rightarrow> re_search cs))"
  by (cases s) (auto simp: match_here_Nil split: option.splits)

lemma match_here_None_iff:
  "match_here s = None \<longleftrightarrow> \<not> (\<exists>b c. s = open_marker @ b @ close_marker @ c)"
proof
  assume n: "match_here s = None"
  show "\<not> (\<exists>b c. s = open_marker @ b @ close_marker @ c)"
  proof
    assume "\<exists>b c. s = open_marker @ b @ close_marker @ c"
    then obtain b c where s: "s = open_marker @ b @ close_marker @ c" by blast
    then have "match_here s = lazy_until close_marker (b @ close_marker @ c)"
      by (simp add: match_here_def)
    moreover have "sublist close_marker (b @ close_marker @ c)" by simp
    ultimately show False using n by (metis lazy_until_None_iff)
  qed
next
  assume n: "\<not> (\<exists>b c. s = open_marker @ b @ close_marker @ c)"
  show "match_here s = None"
  proof (cases "prefix open_marker s")
    case False
    then show ?thesis by (simp add: match_here_def)
  next
    case True
    then obtain r where s: "s = open_marker @ r" by (auto simp: prefix_def)
    have "\<not> sublist close_marker r"
    proof
      assume "sublist close_marker r"
      then obtain b c where "r = b @ close_marker @ c" by (auto simp: sublist_def)
      with s n show False by blast
    qed
    with s show ?thesis by (simp add: match_here_def lazy_until_None_iff)
  qed
qed

lemma re_search_None_iff:
  "re_search s = None \<longleftrightarrow> \<not> (\<exists>a b c. s = a @ open_marker @ b @ close_marker @ c)"
proof (induction s)
  case Nil
  show ?case using open_marker_not_Nil by (simp add: match_here_Nil)
next
  case (Cons x xs)
  have split: "(\<exists>a b c. x # xs = a @ open_marker @ b @ close_marker @ c) \<longleftrightarrow>
      (\<exists>b c. x # xs = open_marker @ b @ close_marker @ c) \<or>
      (\<exists>a b c. xs = a @ open_marker @ b @ close_marker @ c)"
    (is "?L \<longleftrightarrow> ?A \<or> ?B")
  proof
    assume ?L
    then obtain a b c where e: "x # xs = a @ open_marker @ b @ close_marker @ c" by blast
    show "?A \<or> ?B"
    proof (cases a)
      case Nil
      with e show ?thesis by auto
    next
      case (Cons y ys)
      with e have "xs = ys @ open_marker @ b @ close_marker @ c" by simp
      then show ?thesis by blast
    qed
  next
    assume "?A \<or> ?B"
    then show ?L
    proof
      assume ?A
      then obtain b c where "x # xs = [] @ open_marker @ b @ close_marker @ c" by auto
      then show ?L by blast
    next
      assume ?B
      then obtain a b c where "xs = a @ open_marker @ b @ close_marker @ c" by blast
      then have "x # xs = (x # a) @ open_marker @ b @ close_marker @ c" by simp
      then show ?L by blast
    qed
  qed
  show ?case
  proof (cases "match_here (x # xs)")
    case None
    then have "\<not> (\<exists>b c. x # xs = open_marker @ b @ close_marker @ c)"
      by (simp add: match_here_None_iff)
    with None Cons.IH split show ?thesis by simp
  next
    case (Some g)
    then have "match_here (x # xs) \<noteq> None" by simp
    then have "\<exists>b c. x # xs = open_marker @ b @ close_marker @ c"
      by (simp add: match_here_None_iff)
    with Some split show ?thesis by simp
  qed
qed

lemma re_search_found:
  "\<not> sublist open_marker (pre @ butlast open_marker) \<Longrightarrow>
   \<not> sublist close_marker (inner @ butlast close_marker) \<Longrightarrow>
   re_search (pre @ open_marker @ inner @ close_marker @ post) = Some inner"
proof (induction pre)
  case Nil
  have "match_here (open_marker @ inner @ close_marker @ post) = Some inner"
    using Nil.prems(2) close_marker_not_Nil
    by (simp add: match_here_def lazy_until_found)
  then show ?case by (subst re_search_unfold) simp
next
  case (Cons c pre)
  have "\<not> prefix open_marker ((c # pre) @ open_marker @ inner @ close_marker @ post)"
    using Cons.prems(1) open_marker_not_Nil by (intro not_prefix_first)
  then have "match_here (c # pre @ open_marker @ inner @ close_marker @ post) = None"
    by (simp add: match_here_def)
  moreover have "\<not> sublist open_marker (pre @ butlast open_marker)"
    using Cons.prems(1) by (simp add: sublist_Cons_right)
  ultimately show ?case using Cons.IH Cons.prems(2) by simp
qed

lemma re_search_Some:
  "re_search s = Some g \<Longrightarrow>
     \<exists>pre post. s = pre @ open_marker @ g @ close_marker @ post \<and>
        \<not> sublist open_marker (pre @ butlast open_marker) \<and>
        \<not> sublist close_marker (g @ butlast close_marker)"
proof (induction s)
  case Nil
  then show ?case by (simp add: match_here_Nil)
next
  case (Cons x xs)
  show ?case
  proof (cases "match_here (x # xs)")
    case (Some g')
    with Cons.prems have gg: "g' = g" by simp
    from Some have p: "prefix open_marker (x # xs)"
      and l: "lazy_until close_marker (drop (length open_marker) (x # xs)) = Some g"
      unfolding gg by (auto simp: match_here_def split: if_splits)
    from p obtain r where r: "x # xs = open_marker @ r" by (auto simp: prefix_def)
    with l have "lazy_until close_marker r = Some g" by simp
    from lazy_until_Some[OF close_marker_not_Nil this] obtain post where
      "r = g @ close_marker @ post" "\<not> sublist close_marker (g @ butlast close_marker)"
      by blast
    moreover have "\<not> sublist open_marker ([] @ butlast open_marker)"
    proof
      assume "sublist open_marker ([] @ butlast open_marker)"
      then have "length open_marker \<le> length (butlast open_marker)"
        using sublist_length_le by fastforce
      moreover have "length (butlast open_marker) < length open_marker"
        using open_marker_not_Nil by (cases open_marker rule: rev_cases) auto
      ultimately show False by linarith
    qed
    ultimately have "x # xs = [] @ open_marker @ g @ close_marker @ post \<and>
        \<not> sublist open_marker ([] @ butlast open_marker) \<and>
        \<not> sublist close_marker (g @ butlast close_marker)"
      using r by simp
    then show ?thesis by blast
  next
    case None
    with Cons.prems have "re_search xs = Some g" by simp
    from Cons.IH[OF this] obtain pre post where
      xs: "xs = pre @ open_marker @ g @ close_marker @ post" and
      no: "\<not> sublist open_marker (pre @ butlast open_marker)" and
      nc: "\<not> sublist close_marker (g @ butlast close_marker)" by blast
    have "\<not> prefix open_marker ((x # pre) @ butlast open_marker)"
    proof
      assume "prefix open_marker ((x # pre) @ butlast open_marker)"
      then have "prefix open_marker (((x # pre) @ butlast open_marker) @
          (last open_marker # g @ close_marker @ post))"
        by (rule prefix_prefix)
      moreover have "((x # pre) @ butlast open_marker) @
          (last open_marker # g @ close_marker @ post) = x # xs"
        using xs open_marker_not_Nil by simp
      ultimately have "prefix open_marker (x # xs)" by simp
      then obtain r where r: "x # xs = open_marker @ r" by (auto simp: prefix_def)
      then have "r = drop (length open_marker) (x # xs)" by simp
      also have "\<dots> = drop (length open_marker)
          (((x # pre) @ open_marker) @ (g @ close_marker @ post))"
        using xs by simp
      also have "\<dots> = (drop (length open_marker) ((x # pre) @ open_marker) @ g) @
          close_marker @ post"
        by (simp only: drop_append) simp
      finally have "x # xs = open_marker @
          (drop (length open_marker) ((x # pre) @ open_marker) @ g) @ close_marker @ post"
        using r by simp
      then have "\<exists>b c. x # xs = open_marker @ b @ close_marker @ c" by blast
      with None show False by (simp add: match_here_None_iff)
    qed
    with no have "\<not> sublist open_marker ((x # pre) @ butlast open_marker)"
      by (simp add: sublist_Cons_right)
    moreover have "x # xs = (x # pre) @ open_marker @ g @ close_marker @ post"
      using xs by simp
    ultimately show ?thesis using nc by blast
  qed
qed

section \<open>What stripping does\<close>

lemma strip_decompose:
  "\<exists>l r. s = l @ strip s @ r \<and> list_all is_space l \<and> list_all is_space r"
proof -
  define t where "t = dropWhile is_space s"
  have s: "s = takeWhile is_space s @ t" by (simp add: t_def)
  have "strip s @ rev (takeWhile is_space (rev t)) =
      rev (takeWhile is_space (rev t) @ dropWhile is_space (rev t))"
    by (simp only: strip_def t_def rev_append)
  also have "\<dots> = rev (rev t)" by (simp only: takeWhile_dropWhile_id)
  also have "\<dots> = t" by simp
  finally have t: "t = strip s @ rev (takeWhile is_space (rev t))" by simp
  have "list_all is_space (takeWhile is_space s)"
    by (auto simp: list_all_iff dest: set_takeWhileD)
  moreover have "list_all is_space (rev (takeWhile is_space (rev t)))"
    by (auto simp: list_all_iff dest: set_takeWhileD)
  moreover have "s = takeWhile is_space s @ strip s @ rev (takeWhile is_space (rev t))"
    using s t by simp
  ultimately show ?thesis by blast
qed

lemma strip_ends:
  assumes "strip s \<noteq> []"
  shows "\<not> is_space (hd (strip s))" "\<not> is_space (last (strip s))"
proof -
  define t where "t = dropWhile is_space s"
  define d where "d = dropWhile is_space (rev t)"
  have st: "strip s = rev d" by (simp add: strip_def t_def d_def)
  with assms have dne: "d \<noteq> []" by simp
  then have "\<not> is_space (hd d)" unfolding d_def by (rule hd_dropWhile)
  then show "\<not> is_space (last (strip s))" using dne st by (simp add: last_rev)
  have "rev d @ rev (takeWhile is_space (rev t)) = rev (takeWhile is_space (rev t) @ d)"
    by (simp only: rev_append)
  also have "\<dots> = rev (rev t)" by (simp only: d_def takeWhile_dropWhile_id)
  also have "\<dots> = t" by simp
  finally have t: "t = rev d @ rev (takeWhile is_space (rev t))" by simp
  with dne have tne: "t \<noteq> []" by auto
  then have "\<not> is_space (hd t)" unfolding t_def by (rule hd_dropWhile)
  moreover have "hd t = hd (rev d)" using t dne by (metis hd_append2 rev_is_Nil_conv)
  ultimately show "\<not> is_space (hd (strip s))" using st by simp
qed

lemma strip_all_space:
  assumes "list_all is_space s"
  shows "strip s = []"
proof -
  have e: "dropWhile is_space s = []"
    using assms by (simp only: dropWhile_eq_Nil_conv list_all_iff)
  show ?thesis by (simp add: strip_def e)
qed

section \<open>A marker cannot begin where its first character is missing\<close>

lemma not_sublist_butlast:
  assumes "stop \<noteq> []"
  shows "\<not> sublist stop (butlast stop)"
proof
  assume "sublist stop (butlast stop)"
  then have "length stop \<le> length (butlast stop)" by (rule sublist_length_le)
  moreover have "length (butlast stop) < length stop"
    using assms by (cases stop rule: rev_cases) auto
  ultimately show False by linarith
qed

lemma no_stop_without_head:
  "stop \<noteq> [] \<Longrightarrow> hd stop \<notin> set g \<Longrightarrow> \<not> sublist stop (g @ butlast stop)"
proof (induction g)
  case Nil
  then show ?case by (simp add: not_sublist_butlast)
next
  case (Cons c g)
  from Cons.prems obtain x xs where s: "stop = x # xs" by (cases stop) auto
  with Cons.prems(2) have "x \<noteq> c" by auto
  then have "\<not> prefix stop ((c # g) @ butlast stop)" using s by simp
  moreover have "\<not> sublist stop (g @ butlast stop)" using Cons by simp
  ultimately show ?case by (simp add: sublist_Cons_right)
qed

lemma spaces_hold_no_close:
  assumes "list_all is_space inner"
  shows "\<not> sublist close_marker (inner @ butlast close_marker)"
proof -
  have h: "hd close_marker = 60" by (simp add: close_marker_def u_def)
  have "\<not> is_space 60" by (simp add: is_space_def)
  with assms have "60 \<notin> set inner" by (auto simp: list_all_iff)
  with h show ?thesis using close_marker_not_Nil by (intro no_stop_without_head) simp_all
qed

section \<open>The parts of a message\<close>

lemma py_get_truthy_getitem:
  "py_get d k = Inr v \<Longrightarrow> truthy v \<Longrightarrow> getitem d k = Inr v"
  by (cases d) (auto split: option.splits)

lemma format_commit_message_eval:
  assumes "getitem commit (u ''type'') = Inr ty" and "fmt rt ty = Inr t"
    and "getitem commit (u ''subject'') = Inr sj" and "fmt rt sj = Inr s"
    and "py_get commit (u ''scope'') = Inr sc"
    and "truthy sc \<longrightarrow> fmt rt sc = Inr scs"
    and "py_get commit (u ''body'') = Inr b"
    and "py_get commit (u ''closes'') = Inr cl"
    and "line = t @ (if truthy sc then u ''('' @ scs @ u '')'' else []) @ u '': '' @ s"
  shows "format_commit_message rt commit =
     bind (if truthy b then bind (py_strip b) (\<lambda>s. Inr [PStr line, PStr [], PStr s])
           else Inr [PStr line]) (\<lambda>parts.
     py_join newline
       (if truthy cl then parts @ (if truthy b then [] else [PStr []]) @ [PStr [], cl]
        else parts))"
proof -
  have sc: "truthy sc \<Longrightarrow> getitem commit (u ''scope'') = Inr sc"
    using assms(5) by (rule py_get_truthy_getitem)
  have scs: "truthy sc \<Longrightarrow> fmt rt sc = Inr scs" using assms(6) by simp
  have b: "truthy b \<Longrightarrow> getitem commit (u ''body'') = Inr b"
    using assms(7) by (rule py_get_truthy_getitem)
  have cl: "truthy cl \<Longrightarrow> getitem commit (u ''closes'') = Inr cl"
    using assms(8) by (rule py_get_truthy_getitem)
  show ?thesis
    unfolding format_commit_message_def
    by (cases "truthy sc"; cases "truthy b"; cases "truthy cl")
       (simp_all add: assms(1-5,7-9) bind_def Let_def sc scs b cl split: sum.splits)
qed

lemma fmsg_plain:
  assumes "getitem commit (u ''type'') = Inr ty" and "fmt rt ty = Inr t"
    and "getitem commit (u ''subject'') = Inr sj" and "fmt rt sj = Inr s"
    and "py_get commit (u ''scope'') = Inr sc"
    and "truthy sc \<longrightarrow> fmt rt sc = Inr scs"
    and "py_get commit (u ''body'') = Inr b"
    and "py_get commit (u ''closes'') = Inr cl"
    and "line = t @ (if truthy sc then u ''('' @ scs @ u '')'' else []) @ u '': '' @ s"
    and "\<not> truthy b" "\<not> truthy cl"
  shows "format_commit_message rt commit = Inr line"
  by (simp add: format_commit_message_eval[OF assms(1-9)] assms(10,11) bind_def py_join_def)

lemma fmsg_body:
  assumes "getitem commit (u ''type'') = Inr ty" and "fmt rt ty = Inr t"
    and "getitem commit (u ''subject'') = Inr sj" and "fmt rt sj = Inr s"
    and "py_get commit (u ''scope'') = Inr sc"
    and "truthy sc \<longrightarrow> fmt rt sc = Inr scs"
    and "py_get commit (u ''body'') = Inr (PStr bs)"
    and "py_get commit (u ''closes'') = Inr cl"
    and "line = t @ (if truthy sc then u ''('' @ scs @ u '')'' else []) @ u '': '' @ s"
    and "bs \<noteq> []" "\<not> truthy cl"
  shows "format_commit_message rt commit = Inr (line @ [10, 10] @ strip bs)"
  by (simp add: format_commit_message_eval[OF assms(1-9)] assms(10,11) bind_def py_join_def
      newline_def)

lemma fmsg_body_closes:
  assumes "getitem commit (u ''type'') = Inr ty" and "fmt rt ty = Inr t"
    and "getitem commit (u ''subject'') = Inr sj" and "fmt rt sj = Inr s"
    and "py_get commit (u ''scope'') = Inr sc"
    and "truthy sc \<longrightarrow> fmt rt sc = Inr scs"
    and "py_get commit (u ''body'') = Inr (PStr bs)"
    and "py_get commit (u ''closes'') = Inr (PStr cs)"
    and "line = t @ (if truthy sc then u ''('' @ scs @ u '')'' else []) @ u '': '' @ s"
    and "bs \<noteq> []" "cs \<noteq> []"
  shows "format_commit_message rt commit = Inr (line @ [10, 10] @ strip bs @ [10, 10] @ cs)"
  by (simp add: format_commit_message_eval[OF assms(1-9)] assms(10,11) bind_def py_join_def
      newline_def)

lemma fmsg_closes:
  assumes "getitem commit (u ''type'') = Inr ty" and "fmt rt ty = Inr t"
    and "getitem commit (u ''subject'') = Inr sj" and "fmt rt sj = Inr s"
    and "py_get commit (u ''scope'') = Inr sc"
    and "truthy sc \<longrightarrow> fmt rt sc = Inr scs"
    and "py_get commit (u ''body'') = Inr b"
    and "py_get commit (u ''closes'') = Inr (PStr cs)"
    and "line = t @ (if truthy sc then u ''('' @ scs @ u '')'' else []) @ u '': '' @ s"
    and "\<not> truthy b" "cs \<noteq> []"
  shows "format_commit_message rt commit = Inr (line @ [10, 10, 10] @ cs)"
  by (simp add: format_commit_message_eval[OF assms(1-9)] assms(10,11) bind_def py_join_def
      newline_def)

lemma fmsg_first_line:
  assumes "getitem commit (u ''type'') = Inr ty" and "fmt rt ty = Inr t"
    and "getitem commit (u ''subject'') = Inr sj" and "fmt rt sj = Inr s"
    and "py_get commit (u ''scope'') = Inr sc"
    and "truthy sc \<longrightarrow> fmt rt sc = Inr scs"
    and "py_get commit (u ''body'') = Inr b"
    and "py_get commit (u ''closes'') = Inr cl"
    and "line = t @ (if truthy sc then u ''('' @ scs @ u '')'' else []) @ u '': '' @ s"
    and "format_commit_message rt commit = Inr msg"
    and "10 \<notin> set line"
  shows "takeWhile (\<lambda>c. c \<noteq> 10) msg = line"
proof -
  have "msg = line \<or> (\<exists>r. msg = line @ 10 # r)"
    using assms(10) unfolding format_commit_message_eval[OF assms(1-9)]
    by (auto simp: bind_def py_join_def newline_def split: if_splits sum.splits)
  then show ?thesis
  proof
    assume "msg = line"
    with assms(11) show ?thesis by (auto simp: takeWhile_eq_all_conv)
  next
    assume "\<exists>r. msg = line @ 10 # r"
    then obtain r where r: "msg = line @ 10 # r" by blast
    have "\<And>x. x \<in> set line \<Longrightarrow> x \<noteq> 10" using assms(11) by auto
    then have "takeWhile (\<lambda>c. c \<noteq> 10) (line @ 10 # r) =
        line @ takeWhile (\<lambda>c. c \<noteq> 10) (10 # r)"
      by (rule takeWhile_append2)
    with r show ?thesis by simp
  qed
qed


section \<open>The loop over the commits\<close>

lemma quote_all_strings: "quote_all rt (map PStr fs) = Inr (map (\<lambda>f. [34] @ f @ [34]) fs)"
  by (induction fs) (simp_all add: bind_def quoted_def)

lemma commands_loop_spec:
  assumes "\<forall>(c, fs, m) \<in> set cs.
      getitem c (u ''files'') = Inr (PList (map PStr fs)) \<and>
      format_commit_message rt c = Inr m"
  shows "commands_loop rt (map fst cs) acc =
     Inr (acc @ concat (map (\<lambda>(c, fs, m).
       [u ''git add '' @ join [32] (map (\<lambda>f. [34] @ f @ [34]) fs),
        u ''git commit -m '' @ [34] @
          concat (map (\<lambda>ch. if ch = 34 then [92, 34] else [ch]) m) @ [34],
        []]) cs))"
  using assms
proof (induction cs arbitrary: acc)
  case Nil
  show ?case by simp
next
  case (Cons x cs)
  obtain c fs m where x: "x = (c, fs, m)" by (cases x) auto
  from Cons.prems x have f: "getitem c (u ''files'') = Inr (PList (map PStr fs))"
    and g: "format_commit_message rt c = Inr m" by auto
  have sp: "u '' '' = [32]" by (simp add: u_def)
  from Cons.prems have rest: "\<forall>(c, fs, m) \<in> set cs.
      getitem c (u ''files'') = Inr (PList (map PStr fs)) \<and>
      format_commit_message rt c = Inr m" by simp
  show ?case
    by (simp add: x f g bind_def Let_def sp quoted_def escape_quotes_def quote_all_strings
        Cons.IH[OF rest])
qed

section \<open>Printing on a stream that takes every text\<close>

lemma block_Nil: "block [] = ([], None)"
  by (simp add: block_def)

lemma block_Cons: "block (p # ps) = andthen p (block ps)"
  by (simp add: block_def)

lemma snd_andthen_ok: "snd p = None \<Longrightarrow> snd (andthen p q) = snd q"
  by (simp add: andthen_def)

lemma snd_block_ok: "(\<And>p. p \<in> set ps \<Longrightarrow> snd p = None) \<Longrightarrow> snd (block ps) = None"
  by (induction ps) (simp_all add: block_Nil block_Cons snd_andthen_ok)

lemma snd_print_line_ok: "stdout_write rt s = None \<Longrightarrow> snd (print_line rt (Inr s)) = None"
  by (simp add: print_line_def)

lemma formats_fmt: "formats rt v \<Longrightarrow> \<exists>s. fmt rt v = Inr s"
  by (auto simp: formats_def split: sum.splits)

lemma field_line_ok:
  assumes "getitem c k = Inr v" "formats rt v" "\<And>s. stdout_write rt s = None"
  shows "snd (print_line rt (bind (getitem c k) (\<lambda>v. bind (fmt rt v) (\<lambda>s. Inr (f s))))) = None"
proof -
  from formats_fmt[OF assms(2)] obtain s where "fmt rt v = Inr s" ..
  then show ?thesis by (simp add: assms(1,3) bind_def print_line_def)
qed

lemma optional_line_ok:
  assumes "py_get c k = Inr x" "truthy x \<longrightarrow> formats rt x" "\<And>s. stdout_write rt s = None"
  shows "snd (on (py_get c k) (\<lambda>x.
     if truthy x
     then print_line rt (bind (getitem c k) (\<lambda>v. bind (fmt rt v) (\<lambda>s. Inr (f s))))
     else ([], None))) = None"
proof (cases "truthy x")
  case False
  then show ?thesis by (simp add: assms(1) on_def)
next
  case True
  from py_get_truthy_getitem[OF assms(1) True] have g: "getitem c k = Inr x" .
  from assms(2) True have "formats rt x" by simp
  from field_line_ok[OF g this assms(3)] True show ?thesis
    by (simp add: assms(1) on_def)
qed

lemma shown_commit_fields:
  assumes "shown_commit rt c"
  obtains v1 v2 v3 sc fs cl where
    "getitem c (u ''id'') = Inr v1" "formats rt v1"
    "getitem c (u ''type'') = Inr v2" "formats rt v2"
    "getitem c (u ''subject'') = Inr v3" "formats rt v3"
    "py_get c (u ''scope'') = Inr sc" "truthy sc \<longrightarrow> formats rt sc"
    "getitem c (u ''files'') = Inr (PList fs)" "formats rt (PInt (int (length fs)))"
    "list_all (formats rt) fs"
    "py_get c (u ''closes'') = Inr cl" "truthy cl \<longrightarrow> formats rt cl"
proof -
  from assms obtain v1 where 1: "getitem c (u ''id'') = Inr v1" "formats rt v1"
    by (auto simp: shown_commit_def split: sum.splits)
  from assms obtain v2 where 2: "getitem c (u ''type'') = Inr v2" "formats rt v2"
    by (auto simp: shown_commit_def split: sum.splits)
  from assms obtain v3 where 3: "getitem c (u ''subject'') = Inr v3" "formats rt v3"
    by (auto simp: shown_commit_def split: sum.splits)
  from assms obtain sc where 4: "py_get c (u ''scope'') = Inr sc"
    "truthy sc \<longrightarrow> formats rt sc"
    by (auto simp: shown_commit_def split: sum.splits if_splits)
  from assms obtain fs where 5: "getitem c (u ''files'') = Inr (PList fs)"
    "formats rt (PInt (int (length fs)))" "list_all (formats rt) fs"
    by (auto simp: shown_commit_def split: sum.splits pyval.splits)
  from assms obtain cl where 6: "py_get c (u ''closes'') = Inr cl"
    "truthy cl \<longrightarrow> formats rt cl"
    by (auto simp: shown_commit_def split: sum.splits if_splits)
  from 1 2 3 4 5 6 show ?thesis by (rule that)
qed

lemma dict_py_get: "\<exists>v. py_get (PDict kvs) k = Inr v"
  by (auto split: option.splits)

lemma getitem_dict: "getitem c k = Inr v \<Longrightarrow> \<exists>kvs. c = PDict kvs \<and> kvs \<noteq> []"
  by (cases c) auto

lemma print_commit_ok:
  assumes "shown_commit rt c" and ok: "\<And>s. stdout_write rt s = None"
  shows "snd (print_commit rt c) = None"
proof -
  from assms(1) obtain v1 v2 v3 sc fs cl where
    g1: "getitem c (u ''id'') = Inr v1" and f1: "formats rt v1" and
    g2: "getitem c (u ''type'') = Inr v2" and f2: "formats rt v2" and
    g3: "getitem c (u ''subject'') = Inr v3" and f3: "formats rt v3" and
    g4: "py_get c (u ''scope'') = Inr sc" and f4: "truthy sc \<longrightarrow> formats rt sc" and
    g5: "getitem c (u ''files'') = Inr (PList fs)" and
    f5: "formats rt (PInt (int (length fs)))" and
    f6: "list_all (formats rt) fs" and
    g7: "py_get c (u ''closes'') = Inr cl" and f7: "truthy cl \<longrightarrow> formats rt cl"
    by (rule shown_commit_fields)
  from getitem_dict[OF g1] obtain kvs where c: "c = PDict kvs" by blast
  from dict_py_get[of kvs "u ''breaking''"] obtain br where
    br: "py_get c (u ''breaking'') = Inr br" unfolding c ..
  from formats_fmt[OF f5] obtain n where "fmt rt (PInt (int (length fs))) = Inr n" ..
  then have n: "builtin_str rt (PInt (int (length fs))) = Inr n" by simp
  have 1: "snd (print_line rt (bind (getitem c (u ''id'')) (\<lambda>v.
         bind (fmt rt v) (\<lambda>s. Inr (u ''--- Commit '' @ s @ u '' ---''))))) = None"
    using g1 f1 ok by (rule field_line_ok)
  have 2: "snd (print_line rt (bind (getitem c (u ''type'')) (\<lambda>v.
         bind (fmt rt v) (\<lambda>s. Inr (u ''Type: '' @ s))))) = None"
    using g2 f2 ok by (rule field_line_ok)
  have 3: "snd (on (py_get c (u ''scope'')) (\<lambda>sc.
         if truthy sc
         then print_line rt (bind (getitem c (u ''scope'')) (\<lambda>v.
                bind (fmt rt v) (\<lambda>s. Inr (u ''Scope: '' @ s))))
         else ([], None))) = None"
    using g4 f4 ok by (rule optional_line_ok)
  have 4: "snd (print_line rt (bind (getitem c (u ''subject'')) (\<lambda>v.
         bind (fmt rt v) (\<lambda>s. Inr (u ''Subject: '' @ s))))) = None"
    using g3 f3 ok by (rule field_line_ok)
  have 5: "snd (print_line rt (bind (getitem c (u ''files'')) (\<lambda>fs.
         bind (py_len fs) (\<lambda>n.
         bind (fmt rt (PInt n)) (\<lambda>s. Inr (u ''Files ('' @ s @ u ''):'')))))) = None"
    by (simp add: g5 n bind_def print_line_def ok)
  have files: "snd (block (map (\<lambda>file_path.
           print_line rt (bind (fmt rt file_path) (\<lambda>s. Inr (u ''  - '' @ s)))) fs)) = None"
  proof (rule snd_block_ok)
    fix p assume "p \<in> set (map (\<lambda>file_path.
           print_line rt (bind (fmt rt file_path) (\<lambda>s. Inr (u ''  - '' @ s)))) fs)"
    then obtain x where x: "x \<in> set fs"
      and p: "p = print_line rt (bind (fmt rt x) (\<lambda>s. Inr (u ''  - '' @ s)))" by auto
    from x f6 have "formats rt x" by (simp add: list_all_iff)
    from formats_fmt[OF this] obtain s where "fmt rt x = Inr s" ..
    with p show "snd p = None" by (simp add: bind_def print_line_def ok)
  qed
  have 6: "snd (on (bind (getitem c (u ''files'')) py_iter) (\<lambda>fs.
         block (map (\<lambda>file_path.
           print_line rt (bind (fmt rt file_path) (\<lambda>s. Inr (u ''  - '' @ s)))) fs))) = None"
    using files by (simp add: g5 bind_def on_def)
  have 7: "snd (on (py_get c (u ''breaking'')) (\<lambda>br.
         if truthy br then print_line rt (Inr (warning_sign @ u ''  BREAKING CHANGE''))
         else ([], None))) = None"
    by (simp add: br on_def snd_print_line_ok ok)
  have 8: "snd (on (py_get c (u ''closes'')) (\<lambda>cl.
         if truthy cl
         then print_line rt (bind (getitem c (u ''closes'')) (\<lambda>v.
                bind (fmt rt v) (\<lambda>s. Inr (u ''Closes: '' @ s))))
         else ([], None))) = None"
    using g7 f7 ok by (rule optional_line_ok)
  have 9: "snd (print_line rt (Inr [])) = None" using ok by (rule snd_print_line_ok)
  show ?thesis
    unfolding print_commit_def
    by (simp only: block_Cons block_Nil snd_andthen_ok 1 2 3 4 5 6 7 8 9 snd_conv simp_thms)
qed

lemma print_commits_ok:
  assumes "list_all (shown_commit rt) cs" and ok: "\<And>s. stdout_write rt s = None"
  shows "snd (block (map (print_commit rt) cs)) = None"
proof (rule snd_block_ok)
  fix p assume "p \<in> set (map (print_commit rt) cs)"
  then obtain c where "c \<in> set cs" and p: "p = print_commit rt c" by auto
  with assms(1) have "shown_commit rt c" by (simp add: list_all_iff)
  from print_commit_ok[OF this ok] p show "snd p = None" by simp
qed

lemma print_commands_ok:
  assumes ok: "\<And>s. stdout_write rt s = None"
  shows "snd (block (map (\<lambda>cmd. if cmd \<noteq> [] then print_line rt (Inr cmd)
     else ([], None)) cmds)) = None"
  by (rule snd_block_ok) (auto simp: snd_print_line_ok ok)

lemma wf_commit_formats:
  assumes "shown_commit rt c" "message_commit c"
  shows "\<exists>m. format_commit_message rt c = Inr m"
proof -
  from assms(1) obtain v1 v2 v3 sc fs cl0 where
    "getitem c (u ''id'') = Inr v1" "formats rt v1" and
    g2: "getitem c (u ''type'') = Inr v2" and f2: "formats rt v2" and
    g3: "getitem c (u ''subject'') = Inr v3" and f3: "formats rt v3" and
    g4: "py_get c (u ''scope'') = Inr sc" and f4: "truthy sc \<longrightarrow> formats rt sc" and
    "getitem c (u ''files'') = Inr (PList fs)" "formats rt (PInt (int (length fs)))"
    "list_all (formats rt) fs"
    "py_get c (u ''closes'') = Inr cl0" "truthy cl0 \<longrightarrow> formats rt cl0"
    by (rule shown_commit_fields)
  from formats_fmt[OF f2] obtain t where t: "fmt rt v2 = Inr t" ..
  from formats_fmt[OF f3] obtain s where s: "fmt rt v3 = Inr s" ..
  obtain scs where scs: "truthy sc \<longrightarrow> fmt rt sc = Inr scs"
    using f4 formats_fmt[of rt sc] by (cases "truthy sc") auto
  from assms(2) obtain b where g5: "py_get c (u ''body'') = Inr b"
    and tb: "text_or_nothing b"
    by (auto simp: message_commit_def split: sum.splits)
  from assms(2) obtain cl where g6: "py_get c (u ''closes'') = Inr cl"
    and tc: "text_or_nothing cl"
    by (auto simp: message_commit_def split: sum.splits)
  have sb: "truthy b \<Longrightarrow> \<exists>s. b = PStr s"
    using tb by (cases b) (auto simp: text_or_nothing_def)
  have scl: "truthy cl \<Longrightarrow> \<exists>s. cl = PStr s"
    using tc by (cases cl) (auto simp: text_or_nothing_def)
  show ?thesis
    unfolding format_commit_message_eval[OF g2 t g3 s g4 scs g5 g6 refl]
    using sb scl
    by (cases "truthy b"; cases "truthy cl") (auto simp: bind_def py_join_def)
qed

lemma quote_all_ok: "list_all (formats rt) fs \<Longrightarrow> \<exists>qs. quote_all rt fs = Inr qs"
proof (induction fs)
  case Nil
  show ?case by simp
next
  case (Cons f fs)
  from Cons.prems have "formats rt f" by simp
  from formats_fmt[OF this] obtain s where s: "fmt rt f = Inr s" ..
  from Cons obtain qs where "quote_all rt fs = Inr qs" by auto
  with s show ?case by (simp add: bind_def)
qed

lemma wf_commits_loop:
  "list_all (wf_commit rt True) cs \<Longrightarrow> \<exists>r. commands_loop rt cs acc = Inr r"
proof (induction cs arbitrary: acc)
  case Nil
  show ?case by simp
next
  case (Cons c cs)
  from Cons.prems have wc: "wf_commit rt True c"
    and r: "list_all (wf_commit rt True) cs" by simp_all
  from wc have w: "shown_commit rt c" "message_commit c" by (simp_all add: wf_commit_def)
  from w(1) obtain v1 v2 v3 sc fs cl where
    "getitem c (u ''id'') = Inr v1" "formats rt v1"
    "getitem c (u ''type'') = Inr v2" "formats rt v2"
    "getitem c (u ''subject'') = Inr v3" "formats rt v3"
    "py_get c (u ''scope'') = Inr sc" "truthy sc \<longrightarrow> formats rt sc" and
    f: "getitem c (u ''files'') = Inr (PList fs)" and
    "formats rt (PInt (int (length fs)))" and
    fa: "list_all (formats rt) fs" and
    "py_get c (u ''closes'') = Inr cl" "truthy cl \<longrightarrow> formats rt cl"
    by (rule shown_commit_fields)
  from quote_all_ok[OF fa] obtain qs where q: "quote_all rt fs = Inr qs" ..
  from wf_commit_formats[OF w] obtain m where m: "format_commit_message rt c = Inr m" ..
  show ?case
    using Cons.IH[OF r] by (simp add: f q m bind_def Let_def)
qed

section \<open>From the stream that takes every text to the stream at hand\<close>

lemma fmt_lenient: "fmt (lenient rt) v = fmt rt v"
  by (cases v) (simp_all add: lenient_def)

lemma py_upper_lenient: "py_upper (lenient rt) v = py_upper rt v"
  by (cases v) (simp_all add: lenient_def)

lemma stdout_write_lenient: "stdout_write (lenient rt) s = None"
  by (simp add: lenient_def)

lemma formats_lenient: "formats (lenient rt) v = formats rt v"
  by (simp add: formats_def fmt_lenient)

lemma format_commit_message_lenient:
  "format_commit_message (lenient rt) c = format_commit_message rt c"
  unfolding format_commit_message_def fmt_lenient by (rule refl)

lemma quote_all_lenient: "quote_all (lenient rt) fs = quote_all rt fs"
  by (induction fs) (simp_all add: fmt_lenient)

lemma commands_loop_lenient: "commands_loop (lenient rt) cs acc = commands_loop rt cs acc"
  by (induction cs arbitrary: acc)
     (simp_all add: quote_all_lenient format_commit_message_lenient)

lemma generate_git_commands_lenient:
  "generate_git_commands (lenient rt) r = generate_git_commands rt r"
  unfolding generate_git_commands_def commands_loop_lenient by (rule refl)

lemma parse_lenient:
  "parse_commit_recommendation (lenient rt) text = parse_commit_recommendation rt text"
  by (simp add: parse_commit_recommendation_def lenient_def cong: option.case_cong)

lemma shown_commit_lenient: "shown_commit (lenient rt) c = shown_commit rt c"
  unfolding shown_commit_def formats_lenient by (rule refl)

lemma wf_commit_lenient: "wf_commit (lenient rt) safe c = wf_commit rt safe c"
  unfolding wf_commit_def shown_commit_lenient by (rule refl)

lemma wf_recommendation_lenient: "wf_recommendation (lenient rt) r = wf_recommendation rt r"
  unfolding wf_recommendation_def formats_lenient wf_commit_lenient by (rule refl)

lemma agree_same: "agree rt p p"
  by (simp add: agree_def)

lemma agree_print_line: "agree rt (print_line (lenient rt) e) (print_line rt e)"
  by (cases e) (auto simp: agree_def takes_def print_line_def lenient_def split: option.splits)

lemma agree_on: "(\<And>v. agree rt (f0 v) (f v)) \<Longrightarrow> agree rt (on e f0) (on e f)"
  by (cases e) (simp_all add: on_def agree_same)

lemma agree_andthen:
  assumes "agree rt p0 p" "agree rt q0 q"
  shows "agree rt (andthen p0 q0) (andthen p q)"
proof (cases "takes rt (fst (andthen p0 q0))")
  case False
  then show ?thesis by (simp add: agree_def)
next
  case True
  then have t: "takes rt (fst p0)"
    by (cases "snd p0") (simp_all add: andthen_def takes_def)
  with assms(1) have p: "p = p0" by (simp add: agree_def)
  show ?thesis
  proof (cases "snd p0")
    case (Some x)
    with p show ?thesis by (simp add: andthen_def agree_def)
  next
    case None
    with True have "takes rt (fst q0)" by (simp add: andthen_def takes_def)
    with assms(2) have "q = q0" by (simp add: agree_def)
    with p show ?thesis by (simp add: agree_def)
  qed
qed

lemma agree_block:
  "list_all2 (agree rt) ps0 ps \<Longrightarrow> agree rt (block ps0) (block ps)"
proof (induction ps0 ps rule: list_all2_induct)
  case Nil
  show ?case by (simp add: block_Nil agree_same)
next
  case (Cons p0 ps0 p ps)
  then show ?case by (simp add: block_Cons agree_andthen)
qed

lemma agree_block_map:
  "(\<And>x. agree rt (f0 x) (f x)) \<Longrightarrow> agree rt (block (map f0 xs)) (block (map f xs))"
  by (rule agree_block) (simp add: list_all2_conv_all_nth)

lemma agree_if:
  "agree rt a0 a \<Longrightarrow> agree rt b0 b \<Longrightarrow> agree rt (if c then a0 else b0) (if c then a else b)"
  by simp

lemma agree_print_commit: "agree rt (print_commit (lenient rt) c) (print_commit rt c)"
  unfolding print_commit_def fmt_lenient
  by (intro agree_block_map agree_block list_all2_Cons[THEN iffD2] conjI agree_print_line
      agree_on agree_if agree_same) simp

lemma agree_print_summary: "agree rt (print_summary (lenient rt) r) (print_summary rt r)"
  unfolding print_summary_def fmt_lenient py_upper_lenient
  by (intro agree_block_map agree_block list_all2_Cons[THEN iffD2] conjI agree_print_line
      agree_on agree_if agree_same agree_print_commit) simp_all

lemma agree_main_block:
  "agree rt
     (block
        [ print_summary (lenient rt) r,
          on (getitem r (u ''status'')) (\<lambda>st.
            if st = PStr (u ''safe'')
            then block
              [ print_line (lenient rt) (Inr banner),
                print_line (lenient rt) (Inr (u ''GIT COMMANDS TO EXECUTE'')),
                print_line (lenient rt) (Inr banner),
                on (generate_git_commands (lenient rt) r) (\<lambda>commands.
                  block (map (\<lambda>cmd. if cmd \<noteq> [] then print_line (lenient rt) (Inr cmd)
                                     else ([], None)) commands)),
                print_line (lenient rt) (Inr []),
                print_line (lenient rt)
                  (Inr (warning_sign @ u ''  Review these commands before executing!'')),
                print_line (lenient rt)
                  (Inr (warning_sign @ u ''  Ensure you have user approval before running.'')) ]
            else ([], None)) ])
     (block
        [ print_summary rt r,
          on (getitem r (u ''status'')) (\<lambda>st.
            if st = PStr (u ''safe'')
            then block
              [ print_line rt (Inr banner),
                print_line rt (Inr (u ''GIT COMMANDS TO EXECUTE'')),
                print_line rt (Inr banner),
                on (generate_git_commands rt r) (\<lambda>commands.
                  block (map (\<lambda>cmd. if cmd \<noteq> [] then print_line rt (Inr cmd)
                                     else ([], None)) commands)),
                print_line rt (Inr []),
                print_line rt
                  (Inr (warning_sign @ u ''  Review these commands before executing!'')),
                print_line rt
                  (Inr (warning_sign @ u ''  Ensure you have user approval before running.'')) ]
            else ([], None)) ])"
  unfolding generate_git_commands_lenient
  by (intro agree_block_map agree_block list_all2_Cons[THEN iffD2] conjI agree_print_line
      agree_on agree_if agree_same agree_print_summary) simp_all

lemma main_agree:
  assumes "takes rt (stdout (main (lenient rt) text))"
  shows "main rt text = main (lenient rt) text"
proof (cases "parse_commit_recommendation rt text")
  case (Inl e)
  then show ?thesis by (simp add: main_def parse_lenient)
next
  case (Inr r)
  show ?thesis
  proof (cases "truthy r")
    case False
    with Inr show ?thesis by (simp add: main_def parse_lenient)
  next
    case True
    from assms Inr True agree_main_block[of rt r] show ?thesis
      by (simp add: main_def parse_lenient Let_def agree_def)
  qed
qed

section \<open>Well-formed recommendations run to the end\<close>

lemma wf_recommendation_fields:
  assumes "wf_recommendation rt r"
  obtains s scan n m where
    "getitem r (u ''status'') = Inr (PStr s)"
    "getitem r (u ''security_scan'') = Inr (PStr scan)"
    "getitem r (u ''issues_found'') = Inr n" "formats rt n"
    "getitem r (u ''commits_proposed'') = Inr m" "formats rt m"
    "s \<noteq> u ''blocked'' \<longrightarrow>
       (\<exists>cs. getitem r (u ''commits'') = Inr (PList cs) \<and>
             list_all (wf_commit rt (s = u ''safe'')) cs)"
proof -
  from assms obtain s where 1: "getitem r (u ''status'') = Inr (PStr s)"
    by (auto simp: wf_recommendation_def split: sum.splits pyval.splits)
  with assms have w:
    "(case getitem r (u ''security_scan'') of Inr (PStr scan) \<Rightarrow> True | _ \<Rightarrow> False)"
    "(case getitem r (u ''issues_found'') of Inr n \<Rightarrow> formats rt n | Inl e \<Rightarrow> False)"
    "(case getitem r (u ''commits_proposed'') of Inr m \<Rightarrow> formats rt m | Inl e \<Rightarrow> False)"
    "(if s = u ''blocked'' then True
      else (case getitem r (u ''commits'') of
              Inr (PList cs) \<Rightarrow> list_all (wf_commit rt (s = u ''safe'')) cs
            | _ \<Rightarrow> False))"
    by (simp_all add: wf_recommendation_def)
  from w(1) obtain scan where 2: "getitem r (u ''security_scan'') = Inr (PStr scan)"
    by (auto split: sum.splits pyval.splits)
  from w(2) obtain n where 3: "getitem r (u ''issues_found'') = Inr n" "formats rt n"
    by (auto split: sum.splits)
  from w(3) obtain m where 4: "getitem r (u ''commits_proposed'') = Inr m" "formats rt m"
    by (auto split: sum.splits)
  from w(4) have 5: "s \<noteq> u ''blocked'' \<longrightarrow>
       (\<exists>cs. getitem r (u ''commits'') = Inr (PList cs) \<and>
             list_all (wf_commit rt (s = u ''safe'')) cs)"
    by (auto split: sum.splits pyval.splits if_splits)
  from 1 2 3 4 5 show ?thesis by (rule that)
qed

lemma shown_of_wf: "list_all (wf_commit rt safe) cs \<Longrightarrow> list_all (shown_commit rt) cs"
  by (simp add: list_all_iff wf_commit_def)

lemma print_summary_ok:
  assumes "wf_recommendation rt r" and ok: "\<And>s. stdout_write rt s = None"
  shows "snd (print_summary rt r) = None"
proof -
  from assms(1) obtain s scan n m where
    g: "getitem r (u ''status'') = Inr (PStr s)"
    "getitem r (u ''security_scan'') = Inr (PStr scan)"
    "getitem r (u ''issues_found'') = Inr n"
    "getitem r (u ''commits_proposed'') = Inr m"
    and fn: "formats rt n" and fm: "formats rt m"
    and cs: "s \<noteq> u ''blocked'' \<longrightarrow>
       (\<exists>cs. getitem r (u ''commits'') = Inr (PList cs) \<and>
             list_all (wf_commit rt (s = u ''safe'')) cs)"
    by (rule wf_recommendation_fields) blast
  from formats_fmt[OF fn] obtain ns where ns: "fmt rt n = Inr ns" ..
  from formats_fmt[OF fm] obtain ms where ms: "fmt rt m = Inr ms" ..
  show ?thesis
  proof (cases "s = u ''blocked''")
    case True
    then show ?thesis
      unfolding print_summary_def
      by (simp add: g ns ms on_def bind_def block_Cons block_Nil snd_andthen_ok
          snd_print_line_ok ok)
  next
    case False
    with cs obtain cl where c: "getitem r (u ''commits'') = Inr (PList cl)"
      and w: "list_all (wf_commit rt (s = u ''safe'')) cl" by blast
    from print_commits_ok[OF shown_of_wf[OF w] ok] False show ?thesis
      unfolding print_summary_def
      by (simp add: g c ns ms on_def bind_def block_Cons block_Nil snd_andthen_ok
          snd_print_line_ok ok)
  qed
qed

lemma main_no_block:
  assumes "parse_commit_recommendation rt text = Inr v" "\<not> truthy v"
  shows "main rt text =
     \<lparr>stdout = [], stderr = [u ''ERROR: No COMMIT_RECOMMENDATION block found in input''],
      ending = SysExit 1\<rparr>"
  using assms by (simp add: main_def)

lemma main_open:
  assumes "parse_commit_recommendation rt text = Inr r" "wf_recommendation rt r"
    and ok: "\<And>s. stdout_write rt s = None"
  shows "ending (main rt text) = Finished \<and> stderr (main rt text) = []"
proof -
  from assms(2) obtain s scan n m where
    g: "getitem r (u ''status'') = Inr (PStr s)"
    and cs: "s \<noteq> u ''blocked'' \<longrightarrow>
       (\<exists>cs. getitem r (u ''commits'') = Inr (PList cs) \<and>
             list_all (wf_commit rt (s = u ''safe'')) cs)"
    by (rule wf_recommendation_fields) blast
  from g have t: "truthy r" by (cases r) (auto split: option.splits)
  have ne: "u ''safe'' \<noteq> u ''blocked''" by (simp add: u_def)
  have gen: "s = u ''safe'' \<Longrightarrow> \<exists>cmds. generate_git_commands rt r = Inr cmds"
  proof -
    assume s: "s = u ''safe''"
    with cs ne obtain cl where c: "getitem r (u ''commits'') = Inr (PList cl)"
      and w: "list_all (wf_commit rt True) cl" by auto
    from wf_commits_loop[OF w] obtain cmds where "commands_loop rt cl [] = Inr cmds" by blast
    then show ?thesis by (simp add: generate_git_commands_def g s c bind_def)
  qed
  have "snd (block [print_summary rt r,
        on (getitem r (u ''status'')) (\<lambda>st.
                  if st = PStr (u ''safe'')
                  then block
                    [ print_line rt (Inr banner),
                      print_line rt (Inr (u ''GIT COMMANDS TO EXECUTE'')),
                      print_line rt (Inr banner),
                      on (generate_git_commands rt r) (\<lambda>commands.
                        block (map (\<lambda>cmd. if cmd \<noteq> [] then print_line rt (Inr cmd)
                                           else ([], None)) commands)),
                      print_line rt (Inr []),
                      print_line rt (Inr (warning_sign @ u ''  Review these commands before executing!'')),
                      print_line rt (Inr (warning_sign @ u ''  Ensure you have user approval before running.'')) ]
                  else ([], None))]) = None"
  proof (cases "s = u ''safe''")
    case True
    from gen[OF True] obtain cmds where "generate_git_commands rt r = Inr cmds" ..
    then show ?thesis
      by (simp add: g on_def True block_Cons block_Nil snd_andthen_ok snd_print_line_ok ok
          print_commands_ok print_summary_ok[OF assms(2)])
  next
    case False
    then show ?thesis
      by (simp add: g on_def block_Cons block_Nil snd_andthen_ok
          print_summary_ok[OF assms(2) ok])
  qed
  then show ?thesis
    by (simp add: main_def assms(1) t Let_def)
qed

lemma main_wf:
  assumes "parse_commit_recommendation rt text = Inr r" "wf_recommendation rt r"
    and "takes rt (stdout (main (lenient rt) text))"
  shows "ending (main rt text) = Finished \<and> stderr (main rt text) = []"
proof -
  have "ending (main (lenient rt) text) = Finished \<and> stderr (main (lenient rt) text) = []"
    by (rule main_open[where r = r])
       (simp_all add: parse_lenient wf_recommendation_lenient assms(1,2) stdout_write_lenient)
  with main_agree[OF assms(3)] show ?thesis by simp
qed

section \<open>Claims about the extraction\<close>

text \<open>
  C5. The extraction step of \<open>parse_commit_recommendation\<close>. Whatever stands before
  and after the markers, when the opening marker does not begin inside \<open>pre\<close> and the
  closing marker does not begin inside \<open>inner\<close> (so the region is the first one, ended
  by the first closing marker after it), the step returns \<open>inner\<close> stripped. Stripping
  removes a run of whitespace at each end and leaves no whitespace at either end. Every
  text that has a delimited region at all has such a first region, and the step
  returns \<^verbatim>\<open>None\<close> exactly when the text has no delimited region. The function then
  returns \<^verbatim>\<open>None\<close> itself, or hands the stripped text to the decoder.
\<close>

theorem extract_block_first_region:
  "(\<not> sublist open_marker (pre @ butlast open_marker) \<longrightarrow>
    \<not> sublist close_marker (inner @ butlast close_marker) \<longrightarrow>
      extract_block (pre @ open_marker @ inner @ close_marker @ post) = Some (strip inner)) \<and>
   (\<exists>l r. inner = l @ strip inner @ r \<and> list_all is_space l \<and> list_all is_space r) \<and>
   (strip inner \<noteq> [] \<longrightarrow>
      \<not> is_space (hd (strip inner)) \<and> \<not> is_space (last (strip inner))) \<and>
   ((\<exists>a b c. text = a @ open_marker @ b @ close_marker @ c) \<longrightarrow>
      (\<exists>pre inner post. text = pre @ open_marker @ inner @ close_marker @ post \<and>
         \<not> sublist open_marker (pre @ butlast open_marker) \<and>
         \<not> sublist close_marker (inner @ butlast close_marker))) \<and>
   (extract_block text = None \<longleftrightarrow>
      \<not> (\<exists>a b c. text = a @ open_marker @ b @ close_marker @ c)) \<and>
   parse_commit_recommendation rt text =
     (case extract_block text of None \<Rightarrow> Inr PNone | Some y \<Rightarrow> yaml_safe_load rt y)"
proof -
  have found: "\<not> sublist open_marker (pre @ butlast open_marker) \<longrightarrow>
    \<not> sublist close_marker (inner @ butlast close_marker) \<longrightarrow>
      extract_block (pre @ open_marker @ inner @ close_marker @ post) = Some (strip inner)"
    by (simp add: extract_block_def re_search_found)
  have none: "extract_block text = None \<longleftrightarrow>
      \<not> (\<exists>a b c. text = a @ open_marker @ b @ close_marker @ c)"
    by (simp add: extract_block_def re_search_None_iff)
  have ex: "(\<exists>a b c. text = a @ open_marker @ b @ close_marker @ c) \<longrightarrow>
      (\<exists>pre inner post. text = pre @ open_marker @ inner @ close_marker @ post \<and>
         \<not> sublist open_marker (pre @ butlast open_marker) \<and>
         \<not> sublist close_marker (inner @ butlast close_marker))"
  proof
    assume "\<exists>a b c. text = a @ open_marker @ b @ close_marker @ c"
    then have "re_search text \<noteq> None" by (simp add: re_search_None_iff)
    then obtain g where "re_search text = Some g" by auto
    from re_search_Some[OF this] show "\<exists>pre inner post.
         text = pre @ open_marker @ inner @ close_marker @ post \<and>
         \<not> sublist open_marker (pre @ butlast open_marker) \<and>
         \<not> sublist close_marker (inner @ butlast close_marker)" by blast
  qed
  have ends: "strip inner \<noteq> [] \<longrightarrow>
      \<not> is_space (hd (strip inner)) \<and> \<not> is_space (last (strip inner))"
    using strip_ends by blast
  have p: "parse_commit_recommendation rt text =
     (case extract_block text of None \<Rightarrow> Inr PNone | Some y \<Rightarrow> yaml_safe_load rt y)"
    by (simp add: parse_commit_recommendation_def)
  note d = strip_decompose[of inner]
  show ?thesis
    by (rule conjI[OF found conjI[OF d conjI[OF ends conjI[OF ex conjI[OF none p]]]]])
qed

lemma ex_text_no_open:
  "\<not> sublist open_marker (u ''noise '' @ butlast open_marker)"
  by code_simp

lemma ex_text_no_close:
  "\<not> sublist close_marker (([10] @ u ''status: blocked '' @ [10]) @ butlast close_marker)"
  by code_simp

lemma ex_strip: "strip ([10] @ u ''status: blocked '' @ [10]) = u ''status: blocked''"
  by code_simp

lemma ex_none: "extract_block (u ''no markers here'') = None"
  by code_simp

theorem extract_block_first_region_witness:
  "extract_block (u ''noise '' @ open_marker @ ([10] @ u ''status: blocked '' @ [10]) @
      close_marker @ u '' more noise'') = Some (u ''status: blocked'') \<and>
   \<not> (\<exists>a b c. u ''no markers here'' = a @ open_marker @ b @ close_marker @ c)"
  using extract_block_first_region [of "u ''noise ''" "[10] @ u ''status: blocked '' @ [10]"
      "u '' more noise''" "u ''no markers here''" sample_runtime]
    ex_text_no_open ex_text_no_close ex_strip ex_none
  by simp

section \<open>Claims about the command generator\<close>

text \<open>
  C1. A recommendation whose \<^verbatim>\<open>status\<close> is anything but the string \<^verbatim>\<open>safe\<close> (for one,
  \<^verbatim>\<open>blocked\<close>) yields the empty list of commands, whatever its other fields hold.
\<close>

theorem generate_git_commands_not_safe:
  "getitem recommendation (u ''status'') = Inr st \<Longrightarrow> st \<noteq> PStr (u ''safe'') \<Longrightarrow>
     generate_git_commands rt recommendation = Inr []"
  by (simp add: generate_git_commands_def bind_def)

theorem generate_git_commands_not_safe_witness:
  "generate_git_commands sample_runtime
     (PDict [(u ''status'', PStr (u ''blocked'')),
             (u ''commits'', PList [PDict [(u ''type'', PStr (u ''fix'')),
                (u ''subject'', PStr (u ''x'')), (u ''files'', PList [PStr (u ''a.py'')])]])])
   = Inr []"
  by (rule generate_git_commands_not_safe [where st = "PStr (u ''blocked'')"])
     (simp_all add: u_def)

section \<open>Claims about the message formatter\<close>

text \<open>
  C3. The commit with type \<^verbatim>\<open>fix\<close>, subject \<^verbatim>\<open>null check\<close> and footer
  \<^verbatim>\<open>Closes #42\<close>, with no body and no scope: the message has three line feeds, that
  is two blank lines, between the subject line and the footer. The text with two line
  feeds is not what the formatter returns.
\<close>

theorem format_commit_message_closes_only:
  "format_commit_message rt
     (PDict [(u ''type'', PStr (u ''fix'')), (u ''subject'', PStr (u ''null check'')),
             (u ''closes'', PStr (u ''Closes #42''))])
   = Inr (u ''fix: null check'' @ [10, 10, 10] @ u ''Closes #42'')"
  by (simp add: format_commit_message_def bind_def u_def py_join_def newline_def)

theorem format_commit_message_closes_only_counterexample:
  "format_commit_message sample_runtime
     (PDict [(u ''type'', PStr (u ''fix'')), (u ''subject'', PStr (u ''null check'')),
             (u ''closes'', PStr (u ''Closes #42''))])
   \<noteq> Inr (u ''fix: null check'' @ [10, 10] @ u ''Closes #42'')"
  by (simp add: format_commit_message_def bind_def u_def py_join_def newline_def)

text \<open>
  C2. The layout of the message, for a commit with \<^verbatim>\<open>type\<close> and \<^verbatim>\<open>subject\<close> whose
  type, subject and (when not empty) scope can be formatted as text; a string always
  can, and \<open>t\<close>, \<open>s\<close> and \<open>scs\<close> are the three texts. The subject line is
  \<^verbatim>\<open>type(scope): subject\<close> when the scope is present and not empty (truthy), else
  \<^verbatim>\<open>type: subject\<close>. A body that is present and not empty follows the subject line
  after one blank line; a footer that is present and not empty follows the body after
  one blank line, and follows the subject line after two blank lines when there is no
  body (or an empty one). When the subject line has no line feed, it is the first line
  of the message. A body or footer that is present but empty counts as absent, so
  "present" alone says too much: the commit with an empty body gets the bare subject
  line.
\<close>

theorem format_commit_message_layout:
  assumes "getitem commit (u ''type'') = Inr ty" and "fmt rt ty = Inr t"
    and "getitem commit (u ''subject'') = Inr sj" and "fmt rt sj = Inr s"
    and "py_get commit (u ''scope'') = Inr sc"
    and "truthy sc \<longrightarrow> fmt rt sc = Inr scs"
    and "py_get commit (u ''body'') = Inr b"
    and "py_get commit (u ''closes'') = Inr cl"
    and "line = t @ (if truthy sc then u ''('' @ scs @ u '')'' else []) @ u '': '' @ s"
  shows "(\<not> truthy b \<and> \<not> truthy cl \<longrightarrow> format_commit_message rt commit = Inr line) \<and>
    (\<forall>bs. b = PStr bs \<and> bs \<noteq> [] \<and> \<not> truthy cl \<longrightarrow>
       format_commit_message rt commit = Inr (line @ [10, 10] @ strip bs)) \<and>
    (\<forall>bs cs. b = PStr bs \<and> bs \<noteq> [] \<and> cl = PStr cs \<and> cs \<noteq> [] \<longrightarrow>
       format_commit_message rt commit = Inr (line @ [10, 10] @ strip bs @ [10, 10] @ cs)) \<and>
    (\<forall>cs. \<not> truthy b \<and> cl = PStr cs \<and> cs \<noteq> [] \<longrightarrow>
       format_commit_message rt commit = Inr (line @ [10, 10, 10] @ cs)) \<and>
    (\<forall>msg. format_commit_message rt commit = Inr msg \<and> 10 \<notin> set line \<longrightarrow>
       takeWhile (\<lambda>c. c \<noteq> 10) msg = line)"
proof (intro conjI allI impI)
  assume "\<not> truthy b \<and> \<not> truthy cl"
  then show "format_commit_message rt commit = Inr line"
    using fmsg_plain[OF assms] by simp
next
  fix bs assume "b = PStr bs \<and> bs \<noteq> [] \<and> \<not> truthy cl"
  then show "format_commit_message rt commit = Inr (line @ [10, 10] @ strip bs)"
    using fmsg_body[OF assms(1-6) _ assms(8,9)] assms(7) by simp
next
  fix bs cs assume "b = PStr bs \<and> bs \<noteq> [] \<and> cl = PStr cs \<and> cs \<noteq> []"
  then show "format_commit_message rt commit =
      Inr (line @ [10, 10] @ strip bs @ [10, 10] @ cs)"
    using fmsg_body_closes[OF assms(1-6) _ _ assms(9)] assms(7,8) by simp
next
  fix cs assume "\<not> truthy b \<and> cl = PStr cs \<and> cs \<noteq> []"
  then show "format_commit_message rt commit = Inr (line @ [10, 10, 10] @ cs)"
    using fmsg_closes[OF assms(1-7) _ assms(9)] assms(8) by simp
next
  fix msg assume "format_commit_message rt commit = Inr msg \<and> 10 \<notin> set line"
  then show "takeWhile (\<lambda>c. c \<noteq> 10) msg = line"
    using fmsg_first_line[OF assms] by simp
qed

lemma ex_full_commit_fields:
  "getitem full_commit (u ''type'') = Inr (PStr (u ''fix''))"
  "fmt sample_runtime (PStr (u ''fix'')) = Inr (u ''fix'')"
  "getitem full_commit (u ''subject'') = Inr (PStr (u ''null check''))"
  "fmt sample_runtime (PStr (u ''null check'')) = Inr (u ''null check'')"
  "py_get full_commit (u ''scope'') = Inr (PStr (u ''api''))"
  "truthy (PStr (u ''api'')) \<longrightarrow> fmt sample_runtime (PStr (u ''api'')) = Inr (u ''api'')"
  "py_get full_commit (u ''body'') = Inr (PStr (u ''  Fixes crash.'' @ [10]))"
  "py_get full_commit (u ''closes'') = Inr (PStr (u ''Closes #42''))"
  "u ''fix(api): null check'' =
     u ''fix'' @ (if truthy (PStr (u ''api'')) then u ''('' @ u ''api'' @ u '')'' else []) @
     u '': '' @ u ''null check''"
  by (simp_all add: full_commit_def u_def)

lemma ex_strip_body: "strip (u ''  Fixes crash.'' @ [10]) = u ''Fixes crash.''"
  by (simp add: strip_def u_def is_space_def)

theorem format_commit_message_layout_witness:
  "format_commit_message sample_runtime full_commit =
     Inr (u ''fix(api): null check'' @ [10, 10] @ u ''Fixes crash.'' @ [10, 10] @
          u ''Closes #42'') \<and>
   takeWhile (\<lambda>c. c \<noteq> 10)
     (u ''fix(api): null check'' @ [10, 10] @ u ''Fixes crash.'' @ [10, 10] @
      u ''Closes #42'') = u ''fix(api): null check''"
proof -
  have n: "10 \<notin> set (u ''fix(api): null check'')" by (simp add: u_def)
  note t = format_commit_message_layout [OF ex_full_commit_fields]
  have ne: "u ''  Fixes crash.'' @ [10] \<noteq> []" "u ''Closes #42'' \<noteq> []"
    by (simp_all add: u_def)
  from t have m: "format_commit_message sample_runtime full_commit =
     Inr (u ''fix(api): null check'' @ [10, 10] @ strip (u ''  Fixes crash.'' @ [10]) @
          [10, 10] @ u ''Closes #42'')"
    and f: "\<And>msg. format_commit_message sample_runtime full_commit = Inr msg \<Longrightarrow>
       takeWhile (\<lambda>c. c \<noteq> 10) msg = u ''fix(api): null check''"
    using ne n by blast+
  from m have m': "format_commit_message sample_runtime full_commit =
     Inr (u ''fix(api): null check'' @ [10, 10] @ u ''Fixes crash.'' @ [10, 10] @
          u ''Closes #42'')" by (simp only: ex_strip_body)
  from m' f[OF m'] show ?thesis by (rule conjI)
qed

theorem format_commit_message_layout_counterexample:
  "getitem empty_body_commit (u ''body'') = Inr (PStr []) \<and>
   format_commit_message sample_runtime empty_body_commit = Inr (u ''fix: x'') \<and>
   format_commit_message sample_runtime empty_body_commit \<noteq> Inr (u ''fix: x'' @ [10, 10])"
  by (simp add: empty_body_commit_def format_commit_message_def bind_def u_def py_join_def
      newline_def)

text \<open>
  C9. A body that is present and not empty enters the message stripped of the
  whitespace at its ends, after the subject line and one blank line, and before the
  footer if there is one; this whenever the subject line can be built, that is, the
  type, the subject and a scope that is not empty can be formatted as text. A body of
  whitespace only is stripped to nothing, and the blank line before it stays.
\<close>

theorem format_commit_message_body_stripped:
  assumes "getitem commit (u ''type'') = Inr ty" and "fmt rt ty = Inr t"
    and "getitem commit (u ''subject'') = Inr sj" and "fmt rt sj = Inr s"
    and "py_get commit (u ''scope'') = Inr sc"
    and "truthy sc \<longrightarrow> fmt rt sc = Inr scs"
    and "py_get commit (u ''body'') = Inr (PStr bs)"
    and "py_get commit (u ''closes'') = Inr cl"
    and "line = t @ (if truthy sc then u ''('' @ scs @ u '')'' else []) @ u '': '' @ s"
    and "bs \<noteq> []"
    and "text_or_nothing cl"
    and "footer = (case cl of PStr cs \<Rightarrow> if cs = [] then [] else [10, 10] @ cs | _ \<Rightarrow> [])"
  shows "format_commit_message rt commit = Inr (line @ [10, 10] @ strip bs @ footer) \<and>
    (list_all is_space bs \<longrightarrow>
       format_commit_message rt commit = Inr (line @ [10, 10] @ footer))"
proof -
  have m: "format_commit_message rt commit = Inr (line @ [10, 10] @ strip bs @ footer)"
  proof (cases "truthy cl")
    case False
    then have "footer = []" using assms(12) by (cases cl) auto
    with fmsg_body[OF assms(1-10) False] show ?thesis by simp
  next
    case True
    with assms(11) obtain cs where cs: "cl = PStr cs" "cs \<noteq> []"
      by (cases cl) (auto simp: text_or_nothing_def)
    then have "footer = [10, 10] @ cs" using assms(12) by simp
    with fmsg_body_closes[OF assms(1-7) _ assms(9,10) cs(2)] assms(8) cs(1)
    show ?thesis by simp
  qed
  moreover have "list_all is_space bs \<longrightarrow>
       format_commit_message rt commit = Inr (line @ [10, 10] @ footer)"
    using m by (simp add: strip_all_space)
  ultimately show ?thesis by (rule conjI)
qed

theorem format_commit_message_body_stripped_witness:
  "format_commit_message sample_runtime full_commit =
     Inr (u ''fix(api): null check'' @ [10, 10] @ strip (u ''  Fixes crash.'' @ [10]) @
          [10, 10] @ u ''Closes #42'') \<and>
   strip (u ''  Fixes crash.'' @ [10]) = u ''Fixes crash.''"
proof -
  have ne: "u ''  Fixes crash.'' @ [10] \<noteq> []" by (simp add: u_def)
  have tn: "text_or_nothing (PStr (u ''Closes #42''))" by (simp add: text_or_nothing_def)
  have f: "[10, 10] @ u ''Closes #42'' =
      (case PStr (u ''Closes #42'') of PStr cs \<Rightarrow> if cs = [] then [] else [10, 10] @ cs
       | _ \<Rightarrow> [])"
    by (simp add: u_def)
  from format_commit_message_body_stripped [OF ex_full_commit_fields ne tn f] ex_strip_body
  show ?thesis by simp
qed

section \<open>Claims about the commands of a safe recommendation\<close>

text \<open>
  C4. A safe recommendation with one commit whose files are \<^verbatim>\<open>a.py\<close> and \<^verbatim>\<open>b.py\<close>
  yields three strings: \<^verbatim>\<open>git add\<close> with both names in double quotes, \<^verbatim>\<open>git commit -m\<close>
  with the formatted message in double quotes and a backslash before each double
  quote inside it, and the empty separator.
\<close>

theorem generate_git_commands_one_commit:
  assumes "getitem recommendation (u ''status'') = Inr (PStr (u ''safe''))"
    and "getitem recommendation (u ''commits'') = Inr (PList [commit])"
    and "getitem commit (u ''files'') = Inr (PList [PStr (u ''a.py''), PStr (u ''b.py'')])"
    and "format_commit_message rt commit = Inr message"
  shows "generate_git_commands rt recommendation =
     Inr [u ''git add '' @ [34] @ u ''a.py'' @ [34, 32, 34] @ u ''b.py'' @ [34],
          u ''git commit -m '' @ [34] @
            concat (map (\<lambda>ch. if ch = 34 then [92, 34] else [ch]) message) @ [34],
          []]"
proof -
  have "\<forall>(c, fs, m) \<in> set [(commit, [u ''a.py'', u ''b.py''], message)].
      getitem c (u ''files'') = Inr (PList (map PStr fs)) \<and>
      format_commit_message rt c = Inr m"
    using assms(3,4) by simp
  from commands_loop_spec[OF this, of "[]"] show ?thesis
    by (simp add: generate_git_commands_def bind_def assms(1,2))
qed

lemma ex_quoting_message:
  "format_commit_message sample_runtime quoting_commit =
     Inr (u ''fix: say '' @ [34] @ u ''hi'' @ [34])"
  by (simp add: quoting_commit_def format_commit_message_def bind_def u_def py_join_def
      newline_def)

theorem generate_git_commands_one_commit_witness:
  "generate_git_commands sample_runtime quoting_recommendation =
     Inr [u ''git add '' @ [34] @ u ''a.py'' @ [34, 32, 34] @ u ''b.py'' @ [34],
          u ''git commit -m '' @ [34] @ u ''fix: say '' @ [92, 34] @ u ''hi'' @ [92, 34] @ [34],
          []]"
proof -
  have 1: "getitem quoting_recommendation (u ''status'') = Inr (PStr (u ''safe''))"
    by (simp add: quoting_recommendation_def u_def)
  have 2: "getitem quoting_recommendation (u ''commits'') = Inr (PList [quoting_commit])"
    by (simp add: quoting_recommendation_def u_def)
  have 3: "getitem quoting_commit (u ''files'') =
      Inr (PList [PStr (u ''a.py''), PStr (u ''b.py'')])"
    by (simp add: quoting_commit_def u_def)
  from generate_git_commands_one_commit [OF 1 2 3 ex_quoting_message]
  show ?thesis by (simp add: u_def)
qed

text \<open>
  C8. For a safe recommendation, every commit contributes its staging command, its
  commit command and the separator, in order. The staging command is \<^verbatim>\<open>git add\<close>
  followed by the paths joined by spaces, each path between double quotes exactly as
  it is: nothing inside a path is escaped. Only the message has its double quotes
  escaped.
\<close>

theorem generate_git_commands_staging:
  assumes "getitem recommendation (u ''status'') = Inr (PStr (u ''safe''))"
    and "getitem recommendation (u ''commits'') = Inr (PList (map fst cs))"
    and "\<forall>(c, fs, m) \<in> set cs.
      getitem c (u ''files'') = Inr (PList (map PStr fs)) \<and>
      format_commit_message rt c = Inr m"
  shows "generate_git_commands rt recommendation =
     Inr (concat (map (\<lambda>(c, fs, m).
       [u ''git add '' @ join [32] (map (\<lambda>f. [34] @ f @ [34]) fs),
        u ''git commit -m '' @ [34] @
          concat (map (\<lambda>ch. if ch = 34 then [92, 34] else [ch]) m) @ [34],
        []]) cs))"
  by (simp add: generate_git_commands_def bind_def assms(1,2)
      commands_loop_spec[OF assms(3), of "[]"])

lemma ex_odd_path_message:
  "format_commit_message sample_runtime odd_path_commit = Inr (u ''chore: tidy'')"
  by (simp add: odd_path_commit_def format_commit_message_def bind_def u_def py_join_def
      newline_def)

theorem generate_git_commands_staging_witness:
  "generate_git_commands sample_runtime odd_path_recommendation =
     Inr [u ''git add '' @ [34] @ u ''a'' @ [34] @ u ''b.py'' @ [34, 32, 34] @
            u ''my file.py'' @ [34],
          u ''git commit -m '' @ [34] @ u ''chore: tidy'' @ [34],
          [],
          u ''git add '' @ [34] @ u ''a.py'' @ [34, 32, 34] @ u ''b.py'' @ [34],
          u ''git commit -m '' @ [34] @ u ''fix: say '' @ [92, 34] @ u ''hi'' @ [92, 34] @ [34],
          []]"
proof -
  have 1: "getitem odd_path_recommendation (u ''status'') = Inr (PStr (u ''safe''))"
    by (simp add: odd_path_recommendation_def u_def)
  have 2: "getitem odd_path_recommendation (u ''commits'') =
      Inr (PList (map fst
        [(odd_path_commit, [u ''a'' @ [34] @ u ''b.py'', u ''my file.py''], u ''chore: tidy''),
         (quoting_commit, [u ''a.py'', u ''b.py''], u ''fix: say '' @ [34] @ u ''hi'' @ [34])]))"
    by (simp add: odd_path_recommendation_def u_def)
  have f: "getitem odd_path_commit (u ''files'') =
      Inr (PList (map PStr [u ''a'' @ [34] @ u ''b.py'', u ''my file.py'']))"
    "getitem quoting_commit (u ''files'') = Inr (PList (map PStr [u ''a.py'', u ''b.py'']))"
    by (simp_all add: odd_path_commit_def quoting_commit_def u_def)
  have 3: "\<forall>(c, fs, m) \<in> set
        [(odd_path_commit, [u ''a'' @ [34] @ u ''b.py'', u ''my file.py''], u ''chore: tidy''),
         (quoting_commit, [u ''a.py'', u ''b.py''], u ''fix: say '' @ [34] @ u ''hi'' @ [34])].
      getitem c (u ''files'') = Inr (PList (map PStr fs)) \<and>
      format_commit_message sample_runtime c = Inr m"
    using f ex_quoting_message ex_odd_path_message by simp
  from generate_git_commands_staging [OF 1 2 3]
  show ?thesis by (simp add: u_def)
qed

section \<open>Claims about the summary\<close>

text \<open>
  C7. Two recommendations with status \<^verbatim>\<open>blocked\<close> that agree on \<^verbatim>\<open>security_scan\<close>,
  \<^verbatim>\<open>issues_found\<close> and \<^verbatim>\<open>commits_proposed\<close> have the same summary, whatever their
  commits are, and stop at the same exception if one is raised. When the scan label is
  a string, the two counts can be formatted and the stream takes the lines, the
  summary is the banner, the four header lines, a blank line and the two lines of the
  blocking notice: no commit and no file appears in it.
\<close>

theorem print_summary_blocked:
  assumes "getitem r1 (u ''status'') = Inr (PStr (u ''blocked''))"
    and "getitem r2 (u ''status'') = Inr (PStr (u ''blocked''))"
    and "getitem r1 (u ''security_scan'') = getitem r2 (u ''security_scan'')"
    and "getitem r1 (u ''issues_found'') = getitem r2 (u ''issues_found'')"
    and "getitem r1 (u ''commits_proposed'') = getitem r2 (u ''commits_proposed'')"
  shows "print_summary rt r1 = print_summary rt r2 \<and>
    (\<forall>scan n m ns ms summary.
        getitem r1 (u ''security_scan'') = Inr (PStr scan) \<and>
        getitem r1 (u ''issues_found'') = Inr n \<and> fmt rt n = Inr ns \<and>
        getitem r1 (u ''commits_proposed'') = Inr m \<and> fmt rt m = Inr ms \<and>
        summary =
          [replicate 60 61, u ''COMMIT RECOMMENDATION SUMMARY'', replicate 60 61,
           u ''Status: '' @ str_upper rt (u ''blocked''),
           u ''Security Scan: '' @ str_upper rt scan,
           u ''Issues Found: '' @ ns,
           u ''Commits Proposed: '' @ ms,
           [],
           [9940] @ u '' BLOCKED - Cannot proceed with commit'',
           u ''Review the security issues in the agent output above.''] \<and>
        (\<forall>s \<in> set summary. stdout_write rt s = None) \<longrightarrow>
      print_summary rt r1 = (summary, None))"
proof -
  have e: "print_summary rt r1 = print_summary rt r2"
    by (simp add: print_summary_def assms(1,2) assms(3-5)[symmetric] on_def)
  have x: "print_summary rt r1 = (summary, None)"
    if "getitem r1 (u ''security_scan'') = Inr (PStr scan)"
      "getitem r1 (u ''issues_found'') = Inr n" "fmt rt n = Inr ns"
      "getitem r1 (u ''commits_proposed'') = Inr m" "fmt rt m = Inr ms"
      "summary =
          [replicate 60 61, u ''COMMIT RECOMMENDATION SUMMARY'', replicate 60 61,
           u ''Status: '' @ str_upper rt (u ''blocked''),
           u ''Security Scan: '' @ str_upper rt scan,
           u ''Issues Found: '' @ ns,
           u ''Commits Proposed: '' @ ms,
           [],
           [9940] @ u '' BLOCKED - Cannot proceed with commit'',
           u ''Review the security issues in the agent output above.'']"
      "\<forall>s \<in> set summary. stdout_write rt s = None" for scan n m ns ms summary
  proof -
    from that(7) have w: "stdout_write rt (replicate 60 61) = None"
      "stdout_write rt (u ''COMMIT RECOMMENDATION SUMMARY'') = None"
      "stdout_write rt (u ''Status: '' @ str_upper rt (u ''blocked'')) = None"
      "stdout_write rt (u ''Security Scan: '' @ str_upper rt scan) = None"
      "stdout_write rt (u ''Issues Found: '' @ ns) = None"
      "stdout_write rt (u ''Commits Proposed: '' @ ms) = None"
      "stdout_write rt [] = None"
      "stdout_write rt (9940 # u '' BLOCKED - Cannot proceed with commit'') = None"
      "stdout_write rt (u ''Review the security issues in the agent output above.'') = None"
      unfolding that(6) by simp_all
    show ?thesis
      unfolding that(6)
      by (simp add: print_summary_def assms(1) that(1-5) w on_def block_def andthen_def
          print_line_def bind_def banner_def blocked_notice_def)
  qed
  from e x show ?thesis by blast
qed

lemma ex_blocked_lines_taken:
  "\<forall>s \<in> set
     [replicate 60 61, u ''COMMIT RECOMMENDATION SUMMARY'', replicate 60 61,
      u ''Status: '' @ u ''BLOCKED'', u ''Security Scan: '' @ u ''FAILED'',
      u ''Issues Found: '' @ u ''2'', u ''Commits Proposed: '' @ u ''0'', [],
      [9940] @ u '' BLOCKED - Cannot proceed with commit'',
      u ''Review the security issues in the agent output above.''].
     stdout_write sample_runtime s = None"
  by (simp add: sample_runtime_def utf8_write_def list_ex_iff u_def)

theorem print_summary_blocked_witness:
  "print_summary sample_runtime blocked_with_commits =
     print_summary sample_runtime blocked_value \<and>
   print_summary sample_runtime blocked_with_commits =
     ([replicate 60 61, u ''COMMIT RECOMMENDATION SUMMARY'', replicate 60 61,
       u ''Status: BLOCKED'', u ''Security Scan: FAILED'', u ''Issues Found: 2'',
       u ''Commits Proposed: 0'', [],
       [9940] @ u '' BLOCKED - Cannot proceed with commit'',
       u ''Review the security issues in the agent output above.''], None)"
proof -
  have g: "getitem blocked_with_commits (u ''status'') = Inr (PStr (u ''blocked''))"
    "getitem blocked_value (u ''status'') = Inr (PStr (u ''blocked''))"
    "getitem blocked_with_commits (u ''security_scan'') =
       getitem blocked_value (u ''security_scan'')"
    "getitem blocked_with_commits (u ''issues_found'') =
       getitem blocked_value (u ''issues_found'')"
    "getitem blocked_with_commits (u ''commits_proposed'') =
       getitem blocked_value (u ''commits_proposed'')"
    by (simp_all add: blocked_with_commits_def blocked_value_def u_def)
  have v: "getitem blocked_with_commits (u ''security_scan'') = Inr (PStr (u ''failed''))"
    "getitem blocked_with_commits (u ''issues_found'') = Inr (PInt 2)"
    "getitem blocked_with_commits (u ''commits_proposed'') = Inr (PInt 0)"
    by (simp_all add: blocked_with_commits_def u_def)
  have s: "str_upper sample_runtime (u ''blocked'') = u ''BLOCKED''"
    "str_upper sample_runtime (u ''failed'') = u ''FAILED''"
    by (simp_all add: sample_runtime_def ascii_upper_def u_def)
  have f: "fmt sample_runtime (PInt 2) = Inr (u ''2'')"
    "fmt sample_runtime (PInt 0) = Inr (u ''0'')"
    by (simp_all add: sample_runtime_def u_def decimal.simps)
  note t = print_summary_blocked [OF g, of sample_runtime]
  from t have e: "print_summary sample_runtime blocked_with_commits =
     print_summary sample_runtime blocked_value" by (rule conjunct1)
  note c = t [THEN conjunct2, rule_format,
      of "u ''failed''" "PInt 2" "u ''2''" "PInt 0" "u ''0''"
        "[replicate 60 61, u ''COMMIT RECOMMENDATION SUMMARY'', replicate 60 61,
          u ''Status: '' @ u ''BLOCKED'', u ''Security Scan: '' @ u ''FAILED'',
          u ''Issues Found: '' @ u ''2'', u ''Commits Proposed: '' @ u ''0'', [],
          [9940] @ u '' BLOCKED - Cannot proceed with commit'',
          u ''Review the security issues in the agent output above.'']",
      unfolded s]
  have "print_summary sample_runtime blocked_with_commits =
     ([replicate 60 61, u ''COMMIT RECOMMENDATION SUMMARY'', replicate 60 61,
       u ''Status: '' @ u ''BLOCKED'', u ''Security Scan: '' @ u ''FAILED'',
       u ''Issues Found: '' @ u ''2'', u ''Commits Proposed: '' @ u ''0'', [],
       [9940] @ u '' BLOCKED - Cannot proceed with commit'',
       u ''Review the security issues in the agent output above.''], None)"
    by (rule c) (intro conjI v f refl ex_blocked_lines_taken)
  then have x: "print_summary sample_runtime blocked_with_commits =
     ([replicate 60 61, u ''COMMIT RECOMMENDATION SUMMARY'', replicate 60 61,
       u ''Status: BLOCKED'', u ''Security Scan: FAILED'', u ''Issues Found: 2'',
       u ''Commits Proposed: 0'', [],
       [9940] @ u '' BLOCKED - Cannot proceed with commit'',
       u ''Review the security issues in the agent output above.''], None)"
    by (simp add: u_def)
  from e x show ?thesis by (rule conjI)
qed

section \<open>Claims about the entry point\<close>

text \<open>
  C6. When the block decodes to a well-formed recommendation, whatever its status
  string is, and the output stream takes every line the run writes (the lines it
  writes on a stream that takes everything), the run falls off the end of \<open>main\<close>
  (exit status 0) and the script writes nothing to the diagnostic stream. When the
  text has no delimited region, the run writes the error line to the diagnostic
  stream, nothing to standard output, and exits with status 1. A block that decodes
  without error to something else need not end with status 0: a mapping that lacks
  \<^verbatim>\<open>security_scan\<close> ends the run with a \<^verbatim>\<open>KeyError\<close>, and status 1.
\<close>

theorem main_exit_status:
  "(parse_commit_recommendation rt text = Inr r \<and> wf_recommendation rt r \<and>
    (\<forall>s \<in> set (stdout (main (lenient rt) text)). stdout_write rt s = None) \<longrightarrow>
      ending (main rt text) = Finished \<and> exit_status (ending (main rt text)) = 0 \<and>
      stderr (main rt text) = []) \<and>
   (\<not> (\<exists>a b c. text = a @ open_marker @ b @ close_marker @ c) \<longrightarrow>
      main rt text =
        \<lparr>stdout = [], stderr = [u ''ERROR: No COMMIT_RECOMMENDATION block found in input''],
         ending = SysExit 1\<rparr> \<and>
      exit_status (ending (main rt text)) = 1)"
proof (intro conjI impI)
  assume a: "parse_commit_recommendation rt text = Inr r \<and> wf_recommendation rt r \<and>
    (\<forall>s \<in> set (stdout (main (lenient rt) text)). stdout_write rt s = None)"
  then have "takes rt (stdout (main (lenient rt) text))"
    by (simp add: takes_def list_all_iff)
  with a have f: "ending (main rt text) = Finished \<and> stderr (main rt text) = []"
    using main_wf by blast
  then show "ending (main rt text) = Finished" "stderr (main rt text) = []"
    "exit_status (ending (main rt text)) = 0" by simp_all
next
  assume n: "\<not> (\<exists>a b c. text = a @ open_marker @ b @ close_marker @ c)"
  then have "re_search text = None" by (simp add: re_search_None_iff)
  then have "parse_commit_recommendation rt text = Inr PNone"
    by (simp add: parse_commit_recommendation_def extract_block_def)
  then have m: "main rt text =
        \<lparr>stdout = [], stderr = [u ''ERROR: No COMMIT_RECOMMENDATION block found in input''],
         ending = SysExit 1\<rparr>"
    by (rule main_no_block) simp
  then show "main rt text =
        \<lparr>stdout = [], stderr = [u ''ERROR: No COMMIT_RECOMMENDATION block found in input''],
         ending = SysExit 1\<rparr>" .
  from m show "exit_status (ending (main rt text)) = 1" by simp
qed

lemma ex6_blocked_parse:
  "parse_commit_recommendation sample_runtime
     (u ''noise '' @ open_marker @ ([10] @ blocked_doc @ [10]) @ close_marker @
      u '' more noise'') = Inr blocked_value"
proof -
  have "60 \<notin> set ([10] @ blocked_doc @ [10])"
    by (simp add: blocked_doc_def u_def)
  moreover have "hd close_marker = 60" by (simp add: close_marker_def u_def)
  ultimately have "\<not> sublist close_marker (([10] @ blocked_doc @ [10]) @ butlast close_marker)"
    using close_marker_not_Nil by (intro no_stop_without_head) simp_all
  with ex_text_no_open have "re_search (u ''noise '' @ open_marker @
      ([10] @ blocked_doc @ [10]) @ close_marker @ u '' more noise'') =
      Some ([10] @ blocked_doc @ [10])"
    by (rule re_search_found)
  moreover have "strip ([10] @ blocked_doc @ [10]) = blocked_doc"
    by (simp add: strip_def is_space_def blocked_doc_def u_def)
  moreover have "sample_load blocked_doc = Inr blocked_value"
    by (simp add: sample_load_def blocked_doc_def u_def)
  ultimately show ?thesis
    by (simp add: parse_commit_recommendation_def extract_block_def sample_runtime_def)
qed

lemma ex6_safe_parse:
  "parse_commit_recommendation sample_runtime
     (open_marker @ ([10] @ safe_doc @ [10]) @ close_marker) = Inr safe_value"
proof -
  have "60 \<notin> set ([10] @ safe_doc @ [10])"
    by (simp add: safe_doc_def u_def)
  moreover have "hd close_marker = 60" by (simp add: close_marker_def u_def)
  ultimately have "\<not> sublist close_marker (([10] @ safe_doc @ [10]) @ butlast close_marker)"
    using close_marker_not_Nil by (intro no_stop_without_head) simp_all
  moreover have "\<not> sublist open_marker ([] @ butlast open_marker)"
    using open_marker_not_Nil by (simp add: not_sublist_butlast)
  ultimately have "re_search ([] @ open_marker @
      ([10] @ safe_doc @ [10]) @ close_marker @ []) = Some ([10] @ safe_doc @ [10])"
    by (intro re_search_found)
  moreover have "strip ([10] @ safe_doc @ [10]) = safe_doc"
    by (simp add: strip_def is_space_def safe_doc_def u_def)
  moreover have "sample_load safe_doc = Inr safe_value"
    by (simp add: sample_load_def safe_doc_def blocked_doc_def u_def)
  ultimately show ?thesis
    by (simp add: parse_commit_recommendation_def extract_block_def sample_runtime_def)
qed

lemma ex6_wf:
  "wf_recommendation sample_runtime blocked_value"
  "wf_recommendation sample_runtime safe_value"
  by (simp_all add: wf_recommendation_def wf_commit_def shown_commit_def message_commit_def
      formats_def text_or_nothing_def blocked_value_def safe_value_def sample_runtime_def
      decimal.simps u_def)

lemma lenient_sample:
  "lenient sample_runtime =
     \<lparr>yaml_safe_load = sample_load, str_upper = ascii_upper, builtin_str = scalar_str,
      stdout_write = (\<lambda>s. None)\<rparr>"
  by (simp add: lenient_def sample_runtime_def)

lemma ex6_blocked_summary:
  "print_summary (lenient sample_runtime) blocked_value =
     ([replicate 60 61, u ''COMMIT RECOMMENDATION SUMMARY'', replicate 60 61,
       u ''Status: BLOCKED'', u ''Security Scan: FAILED'', u ''Issues Found: 2'',
       u ''Commits Proposed: 0'', [],
       [9940] @ u '' BLOCKED - Cannot proceed with commit'',
       u ''Review the security issues in the agent output above.''], None)"
  by (simp add: lenient_sample blocked_value_def print_summary_def block_def
      andthen_def print_line_def on_def bind_def ascii_upper_def decimal.simps banner_def
      blocked_notice_def u_def)

lemma ex6_blocked_run:
  "stdout (main (lenient sample_runtime)
     (u ''noise '' @ open_marker @ ([10] @ blocked_doc @ [10]) @ close_marker @
      u '' more noise'')) =
     [replicate 60 61, u ''COMMIT RECOMMENDATION SUMMARY'', replicate 60 61,
       u ''Status: BLOCKED'', u ''Security Scan: FAILED'', u ''Issues Found: 2'',
       u ''Commits Proposed: 0'', [],
       [9940] @ u '' BLOCKED - Cannot proceed with commit'',
       u ''Review the security issues in the agent output above.'']"
proof -
  have p: "parse_commit_recommendation (lenient sample_runtime)
     (u ''noise '' @ open_marker @ ([10] @ blocked_doc @ [10]) @ close_marker @
      u '' more noise'') = Inr blocked_value"
    by (simp only: parse_lenient ex6_blocked_parse)
  have t: "truthy blocked_value" by (simp add: blocked_value_def)
  have g: "getitem blocked_value (u ''status'') = Inr (PStr (u ''blocked''))"
    by (simp add: blocked_value_def u_def)
  have ne: "u ''blocked'' \<noteq> u ''safe''" by (simp add: u_def)
  show ?thesis
    unfolding main_def p
    by (simp add: t Let_def g ne on_def ex6_blocked_summary block_def andthen_def)
qed

lemma ex6_blocked_lines:
  "\<forall>s \<in> set (stdout (main (lenient sample_runtime)
     (u ''noise '' @ open_marker @ ([10] @ blocked_doc @ [10]) @ close_marker @
      u '' more noise''))). stdout_write sample_runtime s = None"
  unfolding ex6_blocked_run
  by (simp add: sample_runtime_def utf8_write_def list_ex_iff u_def)

lemma ex6_safe_summary:
  "print_summary (lenient sample_runtime) safe_value =
     ([replicate 60 61, u ''COMMIT RECOMMENDATION SUMMARY'', replicate 60 61,
       u ''Status: SAFE'', u ''Security Scan: PASSED'', u ''Issues Found: 0'',
       u ''Commits Proposed: 1'', [],
       u ''--- Commit 1 ---'', u ''Type: fix'', u ''Subject: null check'',
       u ''Files (2):'', u ''  - a.py'', u ''  - b.py'', []], None)"
  by (simp add: lenient_sample safe_value_def print_summary_def print_commit_def block_def
      andthen_def print_line_def on_def bind_def ascii_upper_def decimal.simps banner_def
      u_def)

lemma ex6_safe_commands:
  "generate_git_commands (lenient sample_runtime) safe_value =
     Inr [u ''git add '' @ [34] @ u ''a.py'' @ [34, 32, 34] @ u ''b.py'' @ [34],
          u ''git commit -m '' @ [34] @ u ''fix: null check'' @ [34], []]"
  by (simp add: lenient_sample safe_value_def generate_git_commands_def
      format_commit_message_def py_join_def newline_def escape_quotes_def quoted_def
      bind_def u_def)

lemma ex6_safe_run:
  "stdout (main (lenient sample_runtime)
     (open_marker @ ([10] @ safe_doc @ [10]) @ close_marker)) =
     [replicate 60 61, u ''COMMIT RECOMMENDATION SUMMARY'', replicate 60 61,
       u ''Status: SAFE'', u ''Security Scan: PASSED'', u ''Issues Found: 0'',
       u ''Commits Proposed: 1'', [],
       u ''--- Commit 1 ---'', u ''Type: fix'', u ''Subject: null check'',
       u ''Files (2):'', u ''  - a.py'', u ''  - b.py'', [],
       replicate 60 61, u ''GIT COMMANDS TO EXECUTE'', replicate 60 61,
       u ''git add '' @ [34] @ u ''a.py'' @ [34, 32, 34] @ u ''b.py'' @ [34],
       u ''git commit -m '' @ [34] @ u ''fix: null check'' @ [34],
       [],
       warning_sign @ u ''  Review these commands before executing!'',
       warning_sign @ u ''  Ensure you have user approval before running.'']"
proof -
  have p: "parse_commit_recommendation (lenient sample_runtime)
     (open_marker @ ([10] @ safe_doc @ [10]) @ close_marker) = Inr safe_value"
    by (simp only: parse_lenient ex6_safe_parse)
  have t: "truthy safe_value" by (simp add: safe_value_def)
  have g: "getitem safe_value (u ''status'') = Inr (PStr (u ''safe''))"
    by (simp add: safe_value_def u_def)
  have w: "\<And>s. print_line (lenient sample_runtime) (Inr s) = ([s], None)"
    by (simp add: print_line_def lenient_def)
  show ?thesis
    unfolding main_def p
    by (simp add: t Let_def g on_def ex6_safe_summary ex6_safe_commands w block_def
        andthen_def banner_def)
qed

lemma ex6_safe_lines:
  "\<forall>s \<in> set (stdout (main (lenient sample_runtime)
     (open_marker @ ([10] @ safe_doc @ [10]) @ close_marker))).
     stdout_write sample_runtime s = None"
  unfolding ex6_safe_run
  by (simp add: sample_runtime_def utf8_write_def list_ex_iff warning_sign_def u_def)

lemma ex6_none: "re_search (u ''nothing to see'') = None"
  by code_simp

theorem main_exit_status_witness:
  "exit_status (ending (main sample_runtime
     (u ''noise '' @ open_marker @ ([10] @ blocked_doc @ [10]) @ close_marker @
      u '' more noise''))) = 0 \<and>
   exit_status (ending (main sample_runtime
     (open_marker @ ([10] @ safe_doc @ [10]) @ close_marker))) = 0 \<and>
   exit_status (ending (main sample_runtime (u ''nothing to see''))) = 1 \<and>
   stderr (main sample_runtime (u ''nothing to see'')) =
     [u ''ERROR: No COMMIT_RECOMMENDATION block found in input'']"
proof -
  have n: "\<not> (\<exists>a b c. u ''nothing to see'' = a @ open_marker @ b @ close_marker @ c)"
    using ex6_none by (simp add: re_search_None_iff)
  from main_exit_status [of sample_runtime "u ''noise '' @ open_marker @
      ([10] @ blocked_doc @ [10]) @ close_marker @ u '' more noise''" blocked_value]
    ex6_blocked_parse ex6_wf(1) ex6_blocked_lines
  have 1: "exit_status (ending (main sample_runtime
     (u ''noise '' @ open_marker @ ([10] @ blocked_doc @ [10]) @ close_marker @
      u '' more noise''))) = 0" by blast
  from main_exit_status [of sample_runtime
      "open_marker @ ([10] @ safe_doc @ [10]) @ close_marker" safe_value]
    ex6_safe_parse ex6_wf(2) ex6_safe_lines
  have 2: "exit_status (ending (main sample_runtime
     (open_marker @ ([10] @ safe_doc @ [10]) @ close_marker))) = 0" by blast
  from main_exit_status [of sample_runtime "u ''nothing to see''"] n
  have 3: "main sample_runtime (u ''nothing to see'') =
        \<lparr>stdout = [], stderr = [u ''ERROR: No COMMIT_RECOMMENDATION block found in input''],
         ending = SysExit 1\<rparr>" by blast
  from 1 2 3 show ?thesis by simp
qed

lemma ex6_minimal_parse:
  "parse_commit_recommendation sample_runtime
     (open_marker @ u ''status: safe'' @ close_marker) =
   Inr (PDict [(u ''status'', PStr (u ''safe''))])"
proof -
  have "60 \<notin> set (u ''status: safe'')" by (simp add: u_def)
  moreover have "hd close_marker = 60" by (simp add: close_marker_def u_def)
  ultimately have "\<not> sublist close_marker (u ''status: safe'' @ butlast close_marker)"
    using close_marker_not_Nil by (intro no_stop_without_head) simp_all
  moreover have "\<not> sublist open_marker ([] @ butlast open_marker)"
    using open_marker_not_Nil by (simp add: not_sublist_butlast)
  ultimately have "re_search ([] @ open_marker @ u ''status: safe'' @ close_marker @ []) =
      Some (u ''status: safe'')"
    by (intro re_search_found)
  moreover have "strip (u ''status: safe'') = u ''status: safe''"
    by (simp add: strip_def is_space_def u_def)
  moreover have "sample_load (u ''status: safe'') =
      Inr (PDict [(u ''status'', PStr (u ''safe''))])"
    by (simp add: sample_load_def u_def)
  ultimately show ?thesis
    by (simp add: parse_commit_recommendation_def extract_block_def sample_runtime_def)
qed

theorem main_exit_status_counterexample:
  "parse_commit_recommendation sample_runtime
     (open_marker @ u ''status: safe'' @ close_marker) =
     Inr (PDict [(u ''status'', PStr (u ''safe''))]) \<and>
   ending (main sample_runtime (open_marker @ u ''status: safe'' @ close_marker)) =
     Uncaught KeyError \<and>
   exit_status (ending (main sample_runtime
     (open_marker @ u ''status: safe'' @ close_marker))) = 1"
proof -
  have "snd (print_summary sample_runtime (PDict [(u ''status'', PStr (u ''safe''))])) =
      Some KeyError"
    by (simp add: print_summary_def block_Cons block_Nil andthen_def print_line_def bind_def
        sample_runtime_def utf8_write_def list_ex_iff ascii_upper_def banner_def u_def)
  then have "ending (main sample_runtime (open_marker @ u ''status: safe'' @ close_marker)) =
     Uncaught KeyError"
    by (simp add: main_def ex6_minimal_parse Let_def block_Cons block_Nil andthen_def)
  with ex6_minimal_parse show ?thesis by simp
qed

text \<open>
  C10. A first region whose inner text is empty or all whitespace, with a decoder that
  returns \<^verbatim>\<open>None\<close> on the empty document (as \<^verbatim>\<open>yaml.safe_load\<close> does): the function
  returns \<^verbatim>\<open>None\<close>, and the run reports that no block was found and exits with status
  1, exactly as on a text with no region at all.
\<close>

theorem degenerate_block_is_not_found:
  assumes "\<not> sublist open_marker (pre @ butlast open_marker)"
    and "list_all is_space inner"
    and "yaml_safe_load rt [] = Inr PNone"
    and "text = pre @ open_marker @ inner @ close_marker @ post"
  shows "parse_commit_recommendation rt text = Inr PNone \<and>
    main rt text =
      \<lparr>stdout = [], stderr = [u ''ERROR: No COMMIT_RECOMMENDATION block found in input''],
       ending = SysExit 1\<rparr> \<and>
    exit_status (ending (main rt text)) = 1 \<and>
    (\<forall>other. \<not> (\<exists>a b c. other = a @ open_marker @ b @ close_marker @ c) \<longrightarrow>
       parse_commit_recommendation rt other = parse_commit_recommendation rt text \<and>
       main rt other = main rt text)"
proof -
  have "re_search text = Some inner"
    unfolding assms(4) using assms(1) spaces_hold_no_close[OF assms(2)]
    by (rule re_search_found)
  then have "extract_block text = Some []"
    by (simp add: extract_block_def strip_all_space[OF assms(2)])
  then have p: "parse_commit_recommendation rt text = Inr PNone"
    by (simp add: parse_commit_recommendation_def assms(3))
  then have m: "main rt text =
      \<lparr>stdout = [], stderr = [u ''ERROR: No COMMIT_RECOMMENDATION block found in input''],
       ending = SysExit 1\<rparr>"
    by (rule main_no_block) simp
  have o: "parse_commit_recommendation rt other = parse_commit_recommendation rt text \<and>
       main rt other = main rt text"
    if "\<not> (\<exists>a b c. other = a @ open_marker @ b @ close_marker @ c)" for other
  proof -
    from that have "re_search other = None" by (simp add: re_search_None_iff)
    then have q: "parse_commit_recommendation rt other = Inr PNone"
      by (simp add: parse_commit_recommendation_def extract_block_def)
    then have "main rt other =
      \<lparr>stdout = [], stderr = [u ''ERROR: No COMMIT_RECOMMENDATION block found in input''],
       ending = SysExit 1\<rparr>"
      by (rule main_no_block) simp
    with p q m show ?thesis by simp
  qed
  from p m o show ?thesis by simp
qed

lemma ex10_no_open: "\<not> sublist open_marker (u ''x '' @ butlast open_marker)"
  by code_simp

lemma ex10_spaces: "list_all is_space (u ''  '' @ [10])"
  by (simp add: u_def is_space_def)

lemma ex10_other: "re_search (u ''no block'') = None"
  by code_simp

theorem degenerate_block_is_not_found_witness:
  "main sample_runtime (u ''x '' @ open_marker @ (u ''  '' @ [10]) @ close_marker @ u '' y'') =
      \<lparr>stdout = [], stderr = [u ''ERROR: No COMMIT_RECOMMENDATION block found in input''],
       ending = SysExit 1\<rparr> \<and>
   main sample_runtime (u ''no block'') =
     main sample_runtime (u ''x '' @ open_marker @ (u ''  '' @ [10]) @ close_marker @ u '' y'')"
proof -
  have l: "yaml_safe_load sample_runtime [] = Inr PNone"
    by (simp add: sample_runtime_def sample_load_def)
  have n: "\<not> (\<exists>a b c. u ''no block'' = a @ open_marker @ b @ close_marker @ c)"
    using ex10_other by (simp add: re_search_None_iff)
  from degenerate_block_is_not_found [OF ex10_no_open ex10_spaces l refl, of "u '' y''"] n
  show ?thesis by blast
qed

end
